theory Spec2Isabelle
  imports Complex_Main "HOL-Library.AList"
begin

section \<open>JavaScript values\<close>

text \<open>
  The program is one JavaScript file, \<^verbatim>\<open>src/main.js\<close>. Its input is a parsed JSON document,
  so the model has a type of JavaScript values and writes out the dynamic checks the code
  makes on them (\<^verbatim>\<open>typeof\<close>, truthiness, \<^verbatim>\<open>??\<close>, \<^verbatim>\<open>Array.isArray\<close>,
  \<^verbatim>\<open>Number.isFinite\<close>, \<^verbatim>\<open>Number.isInteger\<close>).
\<close>

subsection \<open>Numbers\<close>

text \<open>
  A JavaScript number is an IEEE 754 binary64 value. A finite number is kept as the rational
  it denotes; the two infinities and NaN are values of their own, since \<^verbatim>\<open>JSON.parse\<close> yields
  \<^verbatim>\<open>Infinity\<close> for a literal such as \<^verbatim>\<open>1e999\<close> and the code tests for them. The two zeros are
  one value: the program neither divides nor asks for the sign of a number, so it cannot tell
  them apart.

  The sum, the difference and the product of two finite numbers are the exact result rounded
  to the nearest binary64 value, a tie going to the even significand, and to an infinity
  beyond the largest finite value. The binary64 values around \<open>x\<close> are the multiples of
  \<open>2 ^ quantum x\<close>: a significand has 53 bits, and below \<open>2 ^ - 1022\<close> the spacing stays
  \<open>2 ^ - 1074\<close>.
\<close>

datatype jsnum = Fin rat | PInf | NInf | NaN

text \<open>The number of binary digits of a positive integer.\<close>

function bits :: "int \<Rightarrow> int" where
  "bits n = (if n \<le> 0 then 0 else 1 + bits (n div 2))"
  by pat_completeness auto

termination
  by (relation "measure nat") auto

declare bits.simps [simp del]

text \<open>For \<open>x > 0\<close>, the exponent \<open>e\<close> with \<open>2 ^ e \<le> x < 2 ^ (e + 1)\<close>.\<close>

definition ilog2 :: "rat \<Rightarrow> int" where
  "ilog2 x =
     (case quotient_of x of (p, q) \<Rightarrow>
        let b = bits p - bits q
        in if 2 powi b \<le> x then b else b - 1)"

text \<open>The nearest integer, a tie going to the even one.\<close>

definition rne :: "rat \<Rightarrow> int" where
  "rne y =
     (let n = \<lfloor>y\<rfloor>; r = y - of_int n
      in if r < 1 / 2 then n else if 1 / 2 < r then n + 1 else if even n then n else n + 1)"

definition quantum :: "rat \<Rightarrow> int" where
  "quantum x = max (ilog2 \<bar>x\<bar> - 52) (- 1074)"

definition nearest :: "rat \<Rightarrow> rat" where
  "nearest x = of_int (rne (x / 2 powi quantum x)) * 2 powi quantum x"

definition round64 :: "rat \<Rightarrow> jsnum" where
  "round64 x =
     (if x = 0 then Fin 0
      else
        let r = nearest x
        in if 1024 \<le> ilog2 \<bar>r\<bar> then (if 0 < x then PInf else NInf) else Fin r)"

text \<open>The rationals that are binary64 values.\<close>

definition binary64 :: "rat \<Rightarrow> bool" where
  "binary64 x \<longleftrightarrow> round64 x = Fin x"

fun num_neg :: "jsnum \<Rightarrow> jsnum" where
  "num_neg (Fin a) = Fin (- a)"
| "num_neg PInf = NInf"
| "num_neg NInf = PInf"
| "num_neg NaN = NaN"

fun num_add :: "jsnum \<Rightarrow> jsnum \<Rightarrow> jsnum" where
  "num_add (Fin a) (Fin b) = round64 (a + b)"
| "num_add NaN _ = NaN"
| "num_add _ NaN = NaN"
| "num_add PInf NInf = NaN"
| "num_add NInf PInf = NaN"
| "num_add PInf _ = PInf"
| "num_add _ PInf = PInf"
| "num_add NInf _ = NInf"
| "num_add _ NInf = NInf"

definition num_sub :: "jsnum \<Rightarrow> jsnum \<Rightarrow> jsnum" where
  "num_sub a b = num_add a (num_neg b)"

text \<open>The sign of a product with an infinite factor; zero times an infinity is NaN.\<close>

definition signed_inf :: "bool \<Rightarrow> jsnum" where
  "signed_inf positive = (if positive then PInf else NInf)"

fun num_mul :: "jsnum \<Rightarrow> jsnum \<Rightarrow> jsnum" where
  "num_mul (Fin a) (Fin b) = round64 (a * b)"
| "num_mul NaN _ = NaN"
| "num_mul _ NaN = NaN"
| "num_mul PInf (Fin b) = (if b = 0 then NaN else signed_inf (0 < b))"
| "num_mul NInf (Fin b) = (if b = 0 then NaN else signed_inf (b < 0))"
| "num_mul (Fin a) PInf = (if a = 0 then NaN else signed_inf (0 < a))"
| "num_mul (Fin a) NInf = (if a = 0 then NaN else signed_inf (a < 0))"
| "num_mul PInf PInf = PInf"
| "num_mul NInf NInf = PInf"
| "num_mul PInf NInf = NInf"
| "num_mul NInf PInf = NInf"

text \<open>
  The remainder \<^verbatim>\<open>a % b\<close> takes the sign of the dividend (the quotient is truncated towards
  zero); it is NaN for an infinite dividend and for a zero divisor, and the dividend itself
  for an infinite divisor. The remainder of two binary64 values is one, so nothing is
  rounded.
\<close>

definition trunc :: "rat \<Rightarrow> rat" where
  "trunc q = (if 0 \<le> q then of_int \<lfloor>q\<rfloor> else of_int \<lceil>q\<rceil>)"

fun num_mod :: "jsnum \<Rightarrow> jsnum \<Rightarrow> jsnum" where
  "num_mod (Fin a) (Fin b) = (if b = 0 then NaN else Fin (a - b * trunc (a / b)))"
| "num_mod (Fin a) PInf = Fin a"
| "num_mod (Fin a) NInf = Fin a"
| "num_mod _ _ = NaN"

text \<open>Comparisons: every comparison with NaN is false.\<close>

fun num_lt :: "jsnum \<Rightarrow> jsnum \<Rightarrow> bool" where
  "num_lt (Fin a) (Fin b) = (a < b)"
| "num_lt NaN _ = False"
| "num_lt _ NaN = False"
| "num_lt _ NInf = False"
| "num_lt PInf _ = False"
| "num_lt NInf _ = True"
| "num_lt _ PInf = True"

fun num_le :: "jsnum \<Rightarrow> jsnum \<Rightarrow> bool" where
  "num_le (Fin a) (Fin b) = (a \<le> b)"
| "num_le NaN _ = False"
| "num_le _ NaN = False"
| "num_le NInf _ = True"
| "num_le _ PInf = True"
| "num_le _ NInf = False"
| "num_le PInf _ = False"

definition num_ge :: "jsnum \<Rightarrow> jsnum \<Rightarrow> bool" where
  "num_ge a b = num_le b a"

definition num_gt :: "jsnum \<Rightarrow> jsnum \<Rightarrow> bool" where
  "num_gt a b = num_lt b a"

fun num_isFinite :: "jsnum \<Rightarrow> bool" where
  "num_isFinite (Fin a) = True"
| "num_isFinite _ = False"

fun num_isInteger :: "jsnum \<Rightarrow> bool" where
  "num_isInteger (Fin a) = (of_int \<lfloor>a\<rfloor> = a)"
| "num_isInteger _ = False"

subsection \<open>Values\<close>

text \<open>
  An array is the list of its elements. \<open>Obj\<close> is an object whose prototype is
  \<^verbatim>\<open>Object.prototype\<close>, which is what \<^verbatim>\<open>JSON.parse\<close> and an object literal give: the list of
  its own properties in the order in which JavaScript enumerates them (\<^verbatim>\<open>Object.entries\<close>).
  \<open>ObjProto p es\<close> is an object with the own properties \<open>es\<close> whose prototype has been set
  to \<open>p\<close>, as the assignment \<^verbatim>\<open>obj["__proto__"] = p\<close> does. \<open>Native\<close> stands for
  \<^verbatim>\<open>Object.prototype\<close> itself and for the functions it holds, which every object inherits.

  A string is a list of characters with codes below 256, each one UTF-16 code unit; a string
  with other code units has no counterpart in the model.
\<close>

datatype native = Object_prototype | Object_function | Prototype_method string

datatype jsval =
    Undefined
  | Null
  | Bool bool
  | Num jsnum
  | Str string
  | Arr "jsval list"
  | Obj "(string \<times> jsval) list"
  | ObjProto jsval "(string \<times> jsval) list"
  | Native native

fun truthy :: "jsval \<Rightarrow> bool" where
  "truthy Undefined = False"
| "truthy Null = False"
| "truthy (Bool b) = b"
| "truthy (Num n) = (n \<noteq> Fin 0 \<and> n \<noteq> NaN)"
| "truthy (Str s) = (s \<noteq> [])"
| "truthy (Arr xs) = True"
| "truthy (Obj es) = True"
| "truthy (ObjProto p es) = True"
| "truthy (Native n) = True"

datatype jstype = T_undefined | T_object | T_boolean | T_number | T_string | T_function

fun typeof :: "jsval \<Rightarrow> jstype" where
  "typeof Undefined = T_undefined"
| "typeof Null = T_object"
| "typeof (Bool b) = T_boolean"
| "typeof (Num n) = T_number"
| "typeof (Str s) = T_string"
| "typeof (Arr xs) = T_object"
| "typeof (Obj es) = T_object"
| "typeof (ObjProto p es) = T_object"
| "typeof (Native n) = (case n of Object_prototype \<Rightarrow> T_object | _ \<Rightarrow> T_function)"

fun nullish :: "jsval \<Rightarrow> bool" where
  "nullish Undefined = True"
| "nullish Null = True"
| "nullish _ = False"

fun isArray :: "jsval \<Rightarrow> bool" where
  "isArray (Arr xs) = True"
| "isArray _ = False"

text \<open>\<^verbatim>\<open>a ?? b\<close> and \<^verbatim>\<open>a || b\<close>.\<close>

definition coalesce :: "jsval \<Rightarrow> jsval \<Rightarrow> jsval" where
  "coalesce a b = (if nullish a then b else a)"

definition or_else :: "jsval \<Rightarrow> jsval \<Rightarrow> jsval" where
  "or_else a b = (if truthy a then a else b)"

definition Number_isFinite :: "jsval \<Rightarrow> bool" where
  "Number_isFinite v = (case v of Num n \<Rightarrow> num_isFinite n | _ \<Rightarrow> False)"

definition Number_isInteger :: "jsval \<Rightarrow> bool" where
  "Number_isInteger v = (case v of Num n \<Rightarrow> num_isInteger n | _ \<Rightarrow> False)"

text \<open>
  The code compares a value with a numeric literal (\<^verbatim>\<open>frameCount < 1\<close>, \<^verbatim>\<open>frameWidth <= 0\<close>,
  \<^verbatim>\<open>frame.w > 0\<close>) only behind a \<^verbatim>\<open>Number.isInteger\<close> or \<^verbatim>\<open>Number.isFinite\<close> test of the
  same value in the same short-circuit chain, so the operand is a number whenever the
  comparison is evaluated and no coercion takes place.
\<close>

definition val_lt :: "jsval \<Rightarrow> jsnum \<Rightarrow> bool" where
  "val_lt v c = (case v of Num n \<Rightarrow> num_lt n c | _ \<Rightarrow> False)"

definition val_le :: "jsval \<Rightarrow> jsnum \<Rightarrow> bool" where
  "val_le v c = (case v of Num n \<Rightarrow> num_le n c | _ \<Rightarrow> False)"

definition val_gt :: "jsval \<Rightarrow> jsnum \<Rightarrow> bool" where
  "val_gt v c = (case v of Num n \<Rightarrow> num_gt n c | _ \<Rightarrow> False)"

subsection \<open>Errors\<close>

text \<open>
  Every \<^verbatim>\<open>throw\<close> of the source is a constructor. \<open>TypeError\<close> is what the runtime raises
  when a property of \<^verbatim>\<open>null\<close> or \<^verbatim>\<open>undefined\<close> is read, \<open>RangeError\<close> what it raises for an
  array length of \<open>2^32\<close> or more. \<open>Unmodelled\<close> marks the places where the model does not
  say what the program does: the conversion of an array or an object to a primitive, of a
  number that is not an integer to a string, of a string that is not a short sequence of
  decimal digits to a number, and the upper case of a character that has none below 256.
\<close>

datatype error =
    TypeError
  | RangeError
  | MissingDom
  | SheetLoadFailed
  | AnimationsLoadFailed
  | NotAnObject
  | NeedsAnimationsObject
  | DefaultsNotObject
  | NeedsFrames string
  | InvalidFrameData string
  | NoAnimationsFound
  | Unmodelled

definition SHEET_PATH :: string where
  "SHEET_PATH = ''assets/3Aug2025Update_UNPAID-PREVIEW.png''"

definition ANIMATIONS_PATH :: string where
  "ANIMATIONS_PATH = ''cat-animations.json''"

definition quoted :: "string \<Rightarrow> string" where
  "quoted s = [CHR 0x27] @ s @ [CHR 0x27]"

text \<open>
  The messages of the errors the source constructs itself; the text of an error of the
  runtime is the engine's.
\<close>

fun message :: "error \<Rightarrow> string option" where
  "message MissingDom = Some ''Missing required DOM elements (#cat-canvas, #controls, #status).''"
| "message SheetLoadFailed = Some (''Failed to load sprite sheet: '' @ SHEET_PATH)"
| "message AnimationsLoadFailed = Some (''Failed to load animation JSON: '' @ ANIMATIONS_PATH)"
| "message NotAnObject = Some ''Animation JSON must be an object.''"
| "message NeedsAnimationsObject =
     Some (''Animation JSON needs an '' @ quoted ''animations'' @ '' object.'')"
| "message DefaultsNotObject =
     Some (''If provided, '' @ quoted ''defaults'' @ '' must be an object.'')"
| "message (NeedsFrames name) =
     Some (''Animation '' @ quoted name @ '' needs either a non-empty '' @ quoted ''frames''
       @ '' array or valid row/frameCount data.'')"
| "message (InvalidFrameData name) =
     Some (''Animation '' @ quoted name @ '' has invalid frame data.'')"
| "message NoAnimationsFound = Some ''No animations found in JSON.''"
| "message _ = None"

definition seqE :: "error + 'a \<Rightarrow> ('a \<Rightarrow> error + 'b) \<Rightarrow> error + 'b" where
  "seqE m f = (case m of Inl e \<Rightarrow> Inl e | Inr x \<Rightarrow> f x)"

fun mapE :: "('a \<Rightarrow> error + 'b) \<Rightarrow> 'a list \<Rightarrow> error + 'b list" where
  "mapE f [] = Inr []"
| "mapE f (x # xs) = seqE (f x) (\<lambda>y. seqE (mapE f xs) (\<lambda>ys. Inr (y # ys)))"

subsection \<open>Properties\<close>

fun show_nat :: "nat \<Rightarrow> string" where
  "show_nat n =
     (if n < 10 then [char_of (48 + n)] else show_nat (n div 10) @ [char_of (48 + n mod 10)])"

declare show_nat.simps [simp del]

text \<open>
  The own enumerable properties of a value, as \<^verbatim>\<open>Object.entries\<close>, \<^verbatim>\<open>Object.keys\<close> and the
  spread \<^verbatim>\<open>{...v}\<close> see them: an array and a string have their indices, and the properties of
  \<^verbatim>\<open>Object.prototype\<close> are not enumerable.
\<close>

fun own_entries :: "jsval \<Rightarrow> (string \<times> jsval) list" where
  "own_entries (Obj es) = es"
| "own_entries (ObjProto p es) = es"
| "own_entries (Arr xs) = zip (map show_nat [0..<length xs]) xs"
| "own_entries (Str s) = zip (map show_nat [0..<length s]) (map (\<lambda>c. Str [c]) s)"
| "own_entries _ = []"

text \<open>
  The properties of \<^verbatim>\<open>Object.prototype\<close>, in a browser: the constructor, ten methods, and the
  accessor \<^verbatim>\<open>__proto__\<close>, whose getter returns the prototype of the object it is read from.
\<close>

definition prototype_methods :: "string list" where
  "prototype_methods =
     [''__defineGetter__'', ''__defineSetter__'', ''__lookupGetter__'', ''__lookupSetter__'',
      ''hasOwnProperty'', ''isPrototypeOf'', ''propertyIsEnumerable'', ''toLocaleString'',
      ''toString'', ''valueOf'']"

definition inherited :: "jsval \<Rightarrow> string \<Rightarrow> jsval" where
  "inherited proto k =
     (if k = ''constructor'' then Native Object_function
      else if k = ''__proto__'' then proto
      else if k \<in> set prototype_methods then Native (Prototype_method k)
      else Undefined)"

definition inherited_names :: "string list" where
  "inherited_names = ''constructor'' # ''__proto__'' # prototype_methods"

text \<open>
  Reading the property \<open>k\<close> of a value that is neither \<^verbatim>\<open>null\<close> nor \<^verbatim>\<open>undefined\<close>: an own
  property first, then the prototype chain. The chain is written out for objects. Of an
  array, a string, a number, a boolean or a function only the own properties are modelled:
  the program reads from such a value only \<^verbatim>\<open>length\<close>, an index, or one of the property names
  of the config (\<^verbatim>\<open>frames\<close>, \<^verbatim>\<open>label\<close>, \<^verbatim>\<open>x\<close>, ...), none of which a built-in prototype has.
  The prototype of an \<open>ObjProto\<close> is an \<open>Obj\<close> or \<^verbatim>\<open>null\<close>, see \<open>js_set\<close> below.
\<close>

fun field :: "jsval \<Rightarrow> string \<Rightarrow> jsval" where
  "field (Arr xs) k =
     (if k = ''length'' then Num (Fin (of_nat (length xs)))
      else case map_of (own_entries (Arr xs)) k of Some v \<Rightarrow> v | None \<Rightarrow> Undefined)"
| "field (Str s) k =
     (if k = ''length'' then Num (Fin (of_nat (length s)))
      else case map_of (own_entries (Str s)) k of Some v \<Rightarrow> v | None \<Rightarrow> Undefined)"
| "field (Obj es) k =
     (case map_of es k of Some v \<Rightarrow> v | None \<Rightarrow> inherited (Native Object_prototype) k)"
| "field (ObjProto p es) k =
     (case map_of es k of
        Some v \<Rightarrow> v
      | None \<Rightarrow>
          (case p of
             Obj ps \<Rightarrow> (case map_of ps k of Some v \<Rightarrow> v | None \<Rightarrow> inherited p k)
           | _ \<Rightarrow> Undefined))"
| "field (Native n) k = (case n of Object_prototype \<Rightarrow> inherited Null k | _ \<Rightarrow> Undefined)"
| "field v k = Undefined"

definition js_get :: "jsval \<Rightarrow> string \<Rightarrow> error + jsval" where
  "js_get v k = (if nullish v then Inl TypeError else Inr (field v k))"

text \<open>
  \<^verbatim>\<open>ToString\<close> on a primitive. An integer below \<open>10^21\<close> in magnitude is printed in decimal;
  how JavaScript prints another finite number is not modelled, nor is the conversion of an
  array or an object. The key of a computed access \<^verbatim>\<open>obj[key]\<close> is this string.
\<close>

fun to_string :: "jsval \<Rightarrow> string option" where
  "to_string (Str s) = Some s"
| "to_string Undefined = Some ''undefined''"
| "to_string Null = Some ''null''"
| "to_string (Bool b) = Some (if b then ''true'' else ''false'')"
| "to_string (Num (Fin a)) =
     (if of_int \<lfloor>a\<rfloor> = a \<and> \<bar>a\<bar> < 10 ^ 21
      then Some (if a < 0 then ''-'' @ show_nat (nat (- \<lfloor>a\<rfloor>)) else show_nat (nat \<lfloor>a\<rfloor>))
      else None)"
| "to_string (Num NaN) = Some ''NaN''"
| "to_string (Num PInf) = Some ''Infinity''"
| "to_string (Num NInf) = Some ''-Infinity''"
| "to_string _ = None"

definition to_property_key :: "jsval \<Rightarrow> string option" where
  "to_property_key key = to_string key"

definition js_index :: "jsval \<Rightarrow> jsval \<Rightarrow> error + jsval" where
  "js_index v key =
     (if nullish v then Inl TypeError
      else case to_property_key key of None \<Rightarrow> Inl Unmodelled | Some k \<Rightarrow> Inr (field v k))"

text \<open>
  An object literal and the spread define own properties one at a time: an existing property
  keeps its place, a new one goes last (\<open>AList.update\<close>). JavaScript puts a new array-index
  key (\<^verbatim>\<open>"0"\<close>, \<^verbatim>\<open>"1"\<close>, ...) before the other keys instead; the one object of the program
  whose order is observed, the normalized animation table, receives its keys in the order
  \<^verbatim>\<open>Object.entries\<close> gave them, which has the index keys first already.
\<close>

definition spread :: "jsval \<Rightarrow> (string \<times> jsval) list \<Rightarrow> (string \<times> jsval) list" where
  "spread v obj = fold (\<lambda>(k, x). AList.update k x) (own_entries v) obj"

text \<open>
  The assignment \<^verbatim>\<open>obj[k] = v\<close> on an object. It sets an own property, except for the key
  \<^verbatim>\<open>__proto__\<close> when the object has no own property of that name and inherits the accessor of
  \<^verbatim>\<open>Object.prototype\<close>: the setter then makes \<open>v\<close> the prototype of the object if \<open>v\<close> is an
  object or \<^verbatim>\<open>null\<close>, and does nothing if \<open>v\<close> is another primitive. The values that the program
  assigns are object literals; an array, a function or an object with a prototype of its own
  as the new prototype is not modelled.
\<close>

definition set_prototype :: "jsval \<Rightarrow> (string \<times> jsval) list \<Rightarrow> jsval \<Rightarrow> error + jsval" where
  "set_prototype obj es v =
     (case v of
        Obj ps \<Rightarrow> Inr (ObjProto v es)
      | Null \<Rightarrow> Inr (ObjProto Null es)
      | Native Object_prototype \<Rightarrow> Inr (Obj es)
      | Undefined \<Rightarrow> Inr obj
      | Bool b \<Rightarrow> Inr obj
      | Num n \<Rightarrow> Inr obj
      | Str s \<Rightarrow> Inr obj
      | _ \<Rightarrow> Inl Unmodelled)"

fun js_set :: "jsval \<Rightarrow> string \<Rightarrow> jsval \<Rightarrow> error + jsval" where
  "js_set (Obj es) k v =
     (if k = ''__proto__'' \<and> map_of es k = None then set_prototype (Obj es) es v
      else Inr (Obj (AList.update k v es)))"
| "js_set (ObjProto p es) k v =
     (case p of
        Null \<Rightarrow> Inr (ObjProto p (AList.update k v es))
      | Obj ps \<Rightarrow>
          if k = ''__proto__'' \<and> map_of es k = None \<and> map_of ps k = None
          then set_prototype (ObjProto p es) es v
          else Inr (ObjProto p (AList.update k v es))
      | _ \<Rightarrow> Inl Unmodelled)"
| "js_set obj k v = Inl Unmodelled"

subsection \<open>Arithmetic on values\<close>

text \<open>
  \<^verbatim>\<open>ToNumber\<close> on a primitive. The empty string is 0 and a string of up to 20 decimal digits
  is the binary64 value nearest to the number it writes; the other strings are not modelled.
\<close>

definition is_digit :: "char \<Rightarrow> bool" where
  "is_digit c \<longleftrightarrow> 48 \<le> (of_char c :: nat) \<and> (of_char c :: nat) \<le> 57"

definition decimal :: "string \<Rightarrow> nat" where
  "decimal s = foldl (\<lambda>n c. 10 * n + ((of_char c :: nat) - 48)) 0 s"

fun to_number :: "jsval \<Rightarrow> jsnum option" where
  "to_number Undefined = Some NaN"
| "to_number Null = Some (Fin 0)"
| "to_number (Bool b) = Some (Fin (if b then 1 else 0))"
| "to_number (Num n) = Some n"
| "to_number (Str s) =
     (if list_all is_digit s \<and> length s \<le> 20 then Some (round64 (of_nat (decimal s)))
      else None)"
| "to_number _ = None"

text \<open>
  \<^verbatim>\<open>a + b\<close> concatenates when one operand is a string and adds the two numbers otherwise;
  \<^verbatim>\<open>a * b\<close> multiplies the two numbers.
\<close>

fun is_string :: "jsval \<Rightarrow> bool" where
  "is_string (Str s) = True"
| "is_string _ = False"

definition js_plus :: "jsval \<Rightarrow> jsval \<Rightarrow> error + jsval" where
  "js_plus a b =
     (if is_string a \<or> is_string b
      then (case (to_string a, to_string b) of
              (Some x, Some y) \<Rightarrow> Inr (Str (x @ y))
            | _ \<Rightarrow> Inl Unmodelled)
      else (case (to_number a, to_number b) of
              (Some x, Some y) \<Rightarrow> Inr (Num (num_add x y))
            | _ \<Rightarrow> Inl Unmodelled))"

definition js_times :: "jsval \<Rightarrow> jsval \<Rightarrow> error + jsval" where
  "js_times a b =
     (case (to_number a, to_number b) of
        (Some x, Some y) \<Rightarrow> Inr (Num (num_mul x y))
      | _ \<Rightarrow> Inl Unmodelled)"


section \<open>The program\<close>

subsection \<open>State\<close>

text \<open>
  The page elements the module looks up when it is loaded; each may be missing. The sprite
  sheet is an opaque image, named by its path.
\<close>

record dom =
  canvas :: bool
  ctx :: bool
  controlsEl :: bool
  statusEl :: bool

datatype sprite_sheet = SpriteSheet string

text \<open>
  The text of the status element, kept symbolic: the text before the program wrote any, the
  loading notice, \<^verbatim>\<open>Current animation: ${prettyName}\<close>, or the message of a caught error.
\<close>

datatype status = Untouched | Loading | CurrentAnimation jsval | Failed error

text \<open>
  The six fields of the source's \<^verbatim>\<open>state\<close> object, and the two effects on the page that the
  claims speak of: the status text, and whether \<^verbatim>\<open>requestAnimationFrame(tick)\<close> has been
  called (the render loop is running). The three counters only ever hold numbers. Buttons
  and canvas drawing change nothing of the state and are left out.
\<close>

record state =
  sheet :: "sprite_sheet option"
  animations :: jsval
  activeAnimationKey :: jsval
  frameIndex :: jsnum
  frameTimerMs :: jsnum
  lastTimestamp :: jsnum
  status :: status
  scheduled :: bool

definition initial_state :: state where
  "initial_state =
     \<lparr>sheet = None, animations = Null, activeAnimationKey = Null, frameIndex = Fin 0,
      frameTimerMs = Fin 0, lastTimestamp = Fin 0, status = Untouched, scheduled = False\<rparr>"

definition setStatus :: "dom \<Rightarrow> status \<Rightarrow> state \<Rightarrow> state" where
  "setStatus d msg s = (if statusEl d then s\<lparr>status := msg\<rparr> else s)"

subsection \<open>Selection\<close>

definition setAnimation :: "dom \<Rightarrow> jsval \<Rightarrow> state \<Rightarrow> error + state" where
  "setAnimation d key s =
     (if \<not> truthy (animations s) then Inr s
      else
        seqE (js_get (animations s) ''animations'') (\<lambda>table.
        seqE (js_index table key) (\<lambda>entry.
          if \<not> truthy entry then Inr s
          else
            let s1 = s\<lparr>activeAnimationKey := key, frameIndex := Fin 0, frameTimerMs := Fin 0\<rparr>
            in seqE (js_get entry ''label'') (\<lambda>label.
                 Inr (setStatus d (CurrentAnimation (or_else label key)) s1)))))"

subsection \<open>Frames\<close>

definition getCurrentFrame :: "state \<Rightarrow> jsval \<Rightarrow> error + jsval" where
  "getCurrentFrame s animation =
     seqE (js_get animation ''frames'') (\<lambda>frames.
     seqE (js_get frames ''length'') (\<lambda>len.
       if \<not> truthy len then Inr Null
       else
         case to_number len of
           None \<Rightarrow> Inl Unmodelled
         | Some n \<Rightarrow> js_index frames (Num (num_mod (frameIndex s) n))))"

text \<open>
  \<^verbatim>\<open>frame && ...\<close>: the properties of \<open>frame\<close> are read only when it is truthy, hence neither
  \<^verbatim>\<open>null\<close> nor \<^verbatim>\<open>undefined\<close>.
\<close>

definition isValidFrame :: "jsval \<Rightarrow> bool" where
  "isValidFrame frame =
     (truthy frame \<and>
      Number_isFinite (field frame ''x'') \<and>
      Number_isFinite (field frame ''y'') \<and>
      Number_isFinite (field frame ''w'') \<and>
      Number_isFinite (field frame ''h'') \<and>
      val_gt (field frame ''w'') (Fin 0) \<and>
      val_gt (field frame ''h'') (Fin 0))"

text \<open>
  \<^verbatim>\<open>Array.from({ length: frameCount }, f)\<close> is called with an integer \<open>frameCount \<ge> 1\<close>: the
  list of indices it maps over. It raises a \<^verbatim>\<open>RangeError\<close> for a length of \<open>2^32\<close> or more.
  (The memory an array takes is not modelled.)
\<close>

definition indices :: "jsval \<Rightarrow> error + nat list" where
  "indices n =
     (case n of
        Num (Fin a) \<Rightarrow> if 2 ^ 32 \<le> a then Inl RangeError else Inr [0..<nat \<lfloor>a\<rfloor>]
      | _ \<Rightarrow> Inr [])"

definition buildFramesFromRow :: "jsval \<Rightarrow> jsval \<Rightarrow> error + jsval" where
  "buildFramesFromRow animation defaults =
     seqE (js_get animation ''frameWidth'') (\<lambda>aw.
     seqE (if nullish aw then js_get defaults ''frameWidth'' else Inr aw) (\<lambda>frameWidth.
     seqE (js_get animation ''frameHeight'') (\<lambda>ah.
     seqE (if nullish ah then js_get defaults ''frameHeight'' else Inr ah) (\<lambda>frameHeight.
     seqE (js_get animation ''startCol'') (\<lambda>sc.
     seqE (js_get animation ''frameCount'') (\<lambda>frameCount.
     seqE (js_get animation ''row'') (\<lambda>row.
       let startCol = coalesce sc (Num (Fin 0)) in
       if \<not> Number_isInteger row \<or>
          \<not> Number_isInteger frameCount \<or>
          val_lt frameCount (Fin 1) \<or>
          \<not> Number_isFinite frameWidth \<or>
          \<not> Number_isFinite frameHeight \<or>
          val_le frameWidth (Fin 0) \<or>
          val_le frameHeight (Fin 0)
       then Inr Null
       else
         seqE (js_get animation ''sheetOffsetX'') (\<lambda>ax.
         seqE (if nullish ax then js_get defaults ''sheetOffsetX'' else Inr ax) (\<lambda>dx.
         seqE (js_get animation ''sheetOffsetY'') (\<lambda>ay.
         seqE (if nullish ay then js_get defaults ''sheetOffsetY'' else Inr ay) (\<lambda>dy.
           let sheetOffsetX = coalesce dx (Num (Fin 0));
               sheetOffsetY = coalesce dy (Num (Fin 0))
           in seqE (indices frameCount) (\<lambda>positions.
              seqE (mapE (\<lambda>index.
                      seqE (js_plus startCol (Num (Fin (of_nat index)))) (\<lambda>col.
                      seqE (js_times col frameWidth) (\<lambda>across.
                      seqE (js_plus sheetOffsetX across) (\<lambda>x.
                      seqE (js_times row frameHeight) (\<lambda>down.
                      seqE (js_plus sheetOffsetY down) (\<lambda>y.
                        Inr (Obj [(''x'', x), (''y'', y), (''w'', frameWidth),
                                  (''h'', frameHeight)])))))))
                    positions)
                (\<lambda>frames. Inr (Arr frames))))))))))))))"


subsection \<open>Normalization\<close>

definition base_defaults :: "(string \<times> jsval) list" where
  "base_defaults =
     [(''frameDurationMs'', Num (Fin 120)), (''scale'', Num (Fin 4)),
      (''frameWidth'', Num (Fin 32)), (''frameHeight'', Num (Fin 32)),
      (''sheetOffsetX'', Num (Fin 0)), (''sheetOffsetY'', Num (Fin 0))]"

text \<open>
  \<^verbatim>\<open>s.toUpperCase()\<close> on the characters below 256: the letters \<^verbatim>\<open>a\<close> to \<^verbatim>\<open>z\<close> and the
  accented letters from code 224 to 254 (but not the division sign, 247) have their capital
  32 places lower, the sharp s (223) becomes \<^verbatim>\<open>SS\<close>, and every other character stays as it
  is, with two exceptions: the capitals of the micro sign (181) and of the y with diaeresis
  (255) have codes above 255, so the model has no string for them.
\<close>

definition upper_char :: "char \<Rightarrow> string" where
  "upper_char c =
     (let n = (of_char c :: nat)
      in if 97 \<le> n \<and> n \<le> 122 then [char_of (n - 32)]
         else if n = 223 then ''SS''
         else if 224 \<le> n \<and> n \<le> 254 \<and> n \<noteq> 247 then [char_of (n - 32)]
         else [c])"

definition toUpperCase :: "string \<Rightarrow> string" where
  "toUpperCase s = concat (map upper_char s)"

definition has_upper :: "string \<Rightarrow> bool" where
  "has_upper s = list_all (\<lambda>c. (of_char c :: nat) \<noteq> 181 \<and> (of_char c :: nat) \<noteq> 255) s"

definition elements :: "jsval \<Rightarrow> jsval list" where
  "elements v = (case v of Arr xs \<Rightarrow> xs | _ \<Rightarrow> [])"

text \<open>
  The entry that the body of the \<^verbatim>\<open>for\<close> loop of \<^verbatim>\<open>normalizeAnimations\<close> builds for \<open>name\<close>.
  The fallback label is needed only when the animation has no label.
\<close>

definition normalize_animation :: "jsval \<Rightarrow> string \<Rightarrow> jsval \<Rightarrow> error + jsval" where
  "normalize_animation defaults name animation =
     (let fallbackLabel = toUpperCase (take 1 name) @ drop 1 name in
      seqE (js_get animation ''frames'') (\<lambda>frames.
      seqE (if isArray frames then Inr frames else buildFramesFromRow animation defaults)
        (\<lambda>resolvedFrames.
          if \<not> isArray resolvedFrames \<or> field resolvedFrames ''length'' = Num (Fin 0)
          then Inl (NeedsFrames name)
          else if \<not> list_all isValidFrame (elements resolvedFrames)
          then Inl (InvalidFrameData name)
          else
            seqE (js_get animation ''label'') (\<lambda>label.
            seqE (js_get animation ''frameDurationMs'') (\<lambda>duration.
            seqE (js_get animation ''scale'') (\<lambda>scale.
              if nullish label \<and> \<not> has_upper (take 1 name) then Inl Unmodelled
              else
                Inr (Obj
                  [(''label'', coalesce label (Str fallbackLabel)),
                   (''frameDurationMs'', coalesce duration (field defaults ''frameDurationMs'')),
                   (''scale'', coalesce scale (field defaults ''scale'')),
                   (''frames'', resolvedFrames)])))))))"

text \<open>
  The loop over \<^verbatim>\<open>Object.entries(data.animations)\<close>; \<open>table\<close> is \<^verbatim>\<open>normalized.animations\<close>, to
  which each entry is assigned under its name. The first animation that fails ends the loop
  with its error.
\<close>

fun normalize_loop :: "jsval \<Rightarrow> (string \<times> jsval) list \<Rightarrow> jsval \<Rightarrow> error + jsval" where
  "normalize_loop defaults [] table = Inr table"
| "normalize_loop defaults ((name, animation) # rest) table =
     seqE (normalize_animation defaults name animation) (\<lambda>entry.
     seqE (js_set table name entry) (\<lambda>table1.
       normalize_loop defaults rest table1))"

definition Object_entries :: "jsval \<Rightarrow> error + (string \<times> jsval) list" where
  "Object_entries v = (if nullish v then Inl TypeError else Inr (own_entries v))"

definition normalizeAnimations :: "jsval \<Rightarrow> error + jsval" where
  "normalizeAnimations data =
     seqE (js_get data ''defaults'') (\<lambda>supplied.
       let defaults = Obj (spread (or_else supplied (Obj [])) base_defaults);
           normalized =
             AList.update ''animations'' (Obj [])
               (AList.update ''defaults'' defaults (spread data []))
       in seqE (js_get data ''animations'') (\<lambda>anims.
          seqE (Object_entries anims) (\<lambda>entries.
          seqE (normalize_loop defaults entries (Obj [])) (\<lambda>table.
            Inr (Obj (AList.update ''animations'' table normalized))))))"

definition validateAnimations :: "jsval \<Rightarrow> error + unit" where
  "validateAnimations data =
     (if \<not> truthy data \<or> typeof data \<noteq> T_object then Inl NotAnObject
      else
        seqE (js_get data ''animations'') (\<lambda>anims.
          if \<not> truthy anims \<or> typeof anims \<noteq> T_object then Inl NeedsAnimationsObject
          else
            seqE (js_get data ''defaults'') (\<lambda>supplied.
              if typeof supplied \<noteq> T_undefined \<and> typeof supplied \<noteq> T_object
              then Inl DefaultsNotObject
              else Inr ())))"

subsection \<open>Playback\<close>

text \<open>
  The \<^verbatim>\<open>while\<close> loop of \<^verbatim>\<open>draw\<close>, on the timer and the frame index; \<open>d\<close> is the frame duration
  as a number and \<open>len\<close> what \<^verbatim>\<open>animation.frames.length\<close> evaluates to in the body (the same
  in every round). The loop need not end: not returning is the value \<open>None\<close>.
\<close>

partial_function (option) draw_loop ::
  "jsnum \<Rightarrow> error + jsnum \<Rightarrow> jsnum \<Rightarrow> jsnum \<Rightarrow> (error + jsnum \<times> jsnum) option"
where
  "draw_loop d len timer index =
     (if num_ge timer d
      then (case len of
              Inl e \<Rightarrow> Some (Inl e)
            | Inr n \<Rightarrow> draw_loop d len (num_sub timer d) (num_mod (num_add index (Fin 1)) n))
      else Some (Inr (timer, index)))"


definition frames_length :: "jsval \<Rightarrow> error + jsnum" where
  "frames_length animation =
     seqE (js_get animation ''frames'') (\<lambda>frames.
     seqE (js_get frames ''length'') (\<lambda>len.
       case to_number len of None \<Rightarrow> Inl Unmodelled | Some n \<Rightarrow> Inr n))"

text \<open>\<^verbatim>\<open>state.animations.animations[state.activeAnimationKey]\<close>, the active entry.\<close>

definition active_animation :: "state \<Rightarrow> error + jsval" where
  "active_animation s =
     seqE (js_get (animations s) ''animations'')
       (\<lambda>table. js_index table (activeAnimationKey s))"

text \<open>
  \<^verbatim>\<open>draw(deltaMs)\<close>, as far as the state goes: the lookup of the active animation, the timer
  and the loop, and \<^verbatim>\<open>getCurrentFrame\<close> (which may raise). What follows in the source reads
  the scale and paints the canvas; it assigns nothing to the state. An error ends the render
  loop, since \<^verbatim>\<open>tick\<close> then does not request the next frame.
\<close>

definition draw :: "dom \<Rightarrow> jsnum \<Rightarrow> state \<Rightarrow> (error + state) option" where
  "draw d deltaMs s =
     (if \<not> ctx d then Some (Inr s)
      else
        case active_animation s of
          Inl e \<Rightarrow> Some (Inl e)
        | Inr animation \<Rightarrow>
            if \<not> truthy animation then Some (Inr s)
            else
              (case seqE (js_get animation ''frameDurationMs'') (\<lambda>own.
                      if nullish own
                      then seqE (js_get (animations s) ''defaults'')
                             (\<lambda>defaults. js_get defaults ''frameDurationMs'')
                      else Inr own) of
                 Inl e \<Rightarrow> Some (Inl e)
               | Inr frameDurationMs \<Rightarrow>
                   (case to_number frameDurationMs of
                      None \<Rightarrow> Some (Inl Unmodelled)
                    | Some duration \<Rightarrow>
                        (case draw_loop duration (frames_length animation)
                                (num_add (frameTimerMs s) deltaMs) (frameIndex s) of
                           None \<Rightarrow> None
                         | Some (Inl e) \<Rightarrow> Some (Inl e)
                         | Some (Inr (timer, index)) \<Rightarrow>
                             let s1 = s\<lparr>frameTimerMs := timer, frameIndex := index\<rparr>
                             in Some (seqE (getCurrentFrame s1 animation) (\<lambda>frame. Inr s1))))))"

text \<open>One animation frame of the browser: \<^verbatim>\<open>tick(timestamp)\<close>.\<close>

definition tick :: "dom \<Rightarrow> jsnum \<Rightarrow> state \<Rightarrow> (error + state) option" where
  "tick d timestamp s =
     (let deltaMs = (if truthy (Num (lastTimestamp s))
                     then num_sub timestamp (lastTimestamp s) else Fin 16);
          s1 = s\<lparr>lastTimestamp := timestamp\<rparr>
      in case draw d deltaMs s1 of
           None \<Rightarrow> None
         | Some (Inl e) \<Rightarrow> Some (Inl e)
         | Some (Inr s2) \<Rightarrow> Some (Inr (s2\<lparr>scheduled := True\<rparr>)))"

text \<open>Successive calls of \<^verbatim>\<open>draw\<close>, one per elapsed time, stopping at the first that fails.\<close>

fun draws :: "dom \<Rightarrow> jsnum list \<Rightarrow> state \<Rightarrow> (error + state) option" where
  "draws d [] s = Some (Inr s)"
| "draws d (deltaMs # rest) s =
     (case draw d deltaMs s of
        None \<Rightarrow> None
      | Some (Inl e) \<Rightarrow> Some (Inl e)
      | Some (Inr s1) \<Rightarrow> draws d rest s1)"

subsection \<open>Startup\<close>

text \<open>The value of the constant \<^verbatim>\<open>startAnimation\<close> in \<^verbatim>\<open>init\<close>, from the normalized table.\<close>

definition startAnimation :: "jsval \<Rightarrow> error + jsval" where
  "startAnimation normalized =
     seqE (js_get normalized ''defaultAnimation'') (\<lambda>wanted.
     seqE (js_get normalized ''animations'') (\<lambda>table.
     seqE (if truthy wanted then js_index table wanted else Inr wanted) (\<lambda>found.
       if truthy found then Inr wanted
       else
         seqE (Object_entries table) (\<lambda>entries.
           Inr (case entries of [] \<Rightarrow> Undefined | (k, v) # rest \<Rightarrow> Str k)))))"

text \<open>
  \<^verbatim>\<open>init()\<close>. The two loads are awaited together; \<open>loaded\<close> is what the \<^verbatim>\<open>await\<close> gives, the
  image and the parsed JSON or the error of a failed load. Every error is caught at the end
  of \<^verbatim>\<open>init\<close> and shown as the status (\<open>Failed e\<close> stands for the message of \<open>e\<close>, or for
  \<^verbatim>\<open>Could not initialize app.\<close> when it has none); the state keeps what was assigned before
  the throw. \<^verbatim>\<open>buildControls\<close> only creates buttons.
\<close>

definition init :: "dom \<Rightarrow> error + sprite_sheet \<times> jsval \<Rightarrow> state \<Rightarrow> state" where
  "init d loaded s =
     (if \<not> canvas d \<or> \<not> ctx d \<or> \<not> controlsEl d \<or> \<not> statusEl d
      then setStatus d (Failed MissingDom) s
      else
        let s1 = setStatus d Loading s in
        case loaded of
          Inl e \<Rightarrow> setStatus d (Failed e) s1
        | Inr (img, data) \<Rightarrow>
            (case validateAnimations data of
               Inl e \<Rightarrow> setStatus d (Failed e) s1
             | Inr ok \<Rightarrow>
                 let s2 = s1\<lparr>sheet := Some img\<rparr> in
                 (case normalizeAnimations data of
                    Inl e \<Rightarrow> setStatus d (Failed e) s2
                  | Inr normalized \<Rightarrow>
                      let s3 = s2\<lparr>animations := normalized\<rparr> in
                      (case startAnimation normalized of
                         Inl e \<Rightarrow> setStatus d (Failed e) s3
                       | Inr start \<Rightarrow>
                           if \<not> truthy start then setStatus d (Failed NoAnimationsFound) s3
                           else
                             (case setAnimation d start s3 of
                                Inl e \<Rightarrow> setStatus d (Failed e) s3
                              | Inr s4 \<Rightarrow> s4\<lparr>scheduled := True\<rparr>)))))"

section \<open>The grid in the words of the specification\<close>

text \<open>
  The second, specification-side definitions that the claims about the frame resolver are
  compared with. A grid parameter is the animation's own value or else the defaults'.
\<close>

definition resolved :: "jsval \<Rightarrow> jsval \<Rightarrow> string \<Rightarrow> jsval" where
  "resolved animation defaults k = coalesce (field animation k) (field defaults k)"

definition val_ge :: "jsval \<Rightarrow> jsnum \<Rightarrow> bool" where
  "val_ge v c = (case v of Num n \<Rightarrow> num_ge n c | _ \<Rightarrow> False)"

text \<open>
  The validation rule: \<^verbatim>\<open>row\<close> and \<^verbatim>\<open>frameCount\<close> integers, \<^verbatim>\<open>frameCount >= 1\<close>, \<^verbatim>\<open>frameWidth\<close>
  and \<^verbatim>\<open>frameHeight\<close> finite and positive.
\<close>

definition valid_grid :: "jsval \<Rightarrow> jsval \<Rightarrow> jsval \<Rightarrow> jsval \<Rightarrow> bool" where
  "valid_grid row frameCount frameWidth frameHeight =
     (Number_isInteger row \<and> Number_isInteger frameCount \<and> val_ge frameCount (Fin 1) \<and>
      Number_isFinite frameWidth \<and> val_gt frameWidth (Fin 0) \<and>
      Number_isFinite frameHeight \<and> val_gt frameHeight (Fin 0))"

text \<open>Rectangle \<open>i\<close> of a grid, as the formula of the specification reads in exact arithmetic.\<close>

definition spec_frame :: "rat \<Rightarrow> rat \<Rightarrow> rat \<Rightarrow> rat \<Rightarrow> rat \<Rightarrow> rat \<Rightarrow> nat \<Rightarrow> jsval" where
  "spec_frame sheetOffsetX sheetOffsetY startCol row frameWidth frameHeight i =
     Obj [(''x'', Num (Fin (sheetOffsetX + (startCol + of_nat i) * frameWidth))),
          (''y'', Num (Fin (sheetOffsetY + row * frameHeight))),
          (''w'', Num (Fin frameWidth)),
          (''h'', Num (Fin frameHeight))]"

text \<open>The same formula with the sums and products of JavaScript, each rounded to binary64.\<close>

definition grid_frame :: "jsnum \<Rightarrow> jsnum \<Rightarrow> jsnum \<Rightarrow> jsnum \<Rightarrow> jsnum \<Rightarrow> jsnum \<Rightarrow> nat \<Rightarrow> jsval" where
  "grid_frame sheetOffsetX sheetOffsetY startCol row frameWidth frameHeight i =
     Obj [(''x'', Num (num_add sheetOffsetX
                        (num_mul (num_add startCol (Fin (of_nat i))) frameWidth))),
          (''y'', Num (num_add sheetOffsetY (num_mul row frameHeight))),
          (''w'', Num frameWidth),
          (''h'', Num frameHeight)]"

section \<open>The playback clock in the words of the specification\<close>

text \<open>The timer after \<open>k\<close> subtractions of the frame duration \<open>d\<close>, starting from \<open>t\<close>.\<close>

fun timer_after :: "jsnum \<Rightarrow> jsnum \<Rightarrow> nat \<Rightarrow> jsnum" where
  "timer_after d t 0 = t"
| "timer_after d t (Suc k) = num_sub (timer_after d t k) d"


section \<open>The shape of the animation table\<close>

text \<open>
  The table starts as \<^verbatim>\<open>{}\<close> and receives object literals by assignment, so it is an object
  with the default prototype, or, once an animation named \<^verbatim>\<open>__proto__\<close> has been assigned, an
  object whose prototype is that entry; it never has an own property \<^verbatim>\<open>__proto__\<close>.
\<close>

definition keys_of :: "(string \<times> jsval) list \<Rightarrow> string list" where
  "keys_of es = map fst es"

fun table_ok :: "jsval \<Rightarrow> bool" where
  "table_ok (Obj es) = (''__proto__'' \<notin> set (keys_of es))"
| "table_ok (ObjProto (Obj ps) es) =
     (''__proto__'' \<notin> set (keys_of es) \<and> ''__proto__'' \<notin> set (keys_of ps))"
| "table_ok v = False"

fun prototype_of :: "jsval \<Rightarrow> jsval" where
  "prototype_of (ObjProto p es) = p"
| "prototype_of v = Native Object_prototype"

section \<open>Example inputs\<close>

definition page :: dom where
  "page = \<lparr>canvas = True, ctx = True, controlsEl = True, statusEl = True\<rparr>"

definition cat_sheet :: sprite_sheet where
  "cat_sheet = SpriteSheet SHEET_PATH"

definition config_walk4 :: jsval where
  "config_walk4 =
     Obj [(''animations'',
           Obj [(''walk'', Obj [(''row'', Num (Fin 0)), (''frameCount'', Num (Fin 4)),
                                (''frameDurationMs'', Num (Fin 100))])])]"

definition started_walk4 :: state where
  "started_walk4 = init page (Inr (cat_sheet, config_walk4)) initial_state"

definition walk4_entry :: "(string \<times> jsval) list" where
  "walk4_entry =
     [(''label'', Str ''Walk''), (''frameDurationMs'', Num (Fin 100)), (''scale'', Num (Fin 4)),
      (''frames'', Arr (map (\<lambda>i. Obj [(''x'', Num (Fin (32 * of_nat i))), (''y'', Num (Fin 0)),
                                     (''w'', Num (Fin 32)), (''h'', Num (Fin 32))]) [0..<4]))]"

definition frame32 :: jsval where
  "frame32 =
     Obj [(''x'', Num (Fin 0)), (''y'', Num (Fin 0)), (''w'', Num (Fin 32)), (''h'', Num (Fin 32))]"

definition config_still :: jsval where
  "config_still =
     Obj [(''animations'',
           Obj [(''still'', Obj [(''frames'', Arr [frame32]),
                                 (''frameDurationMs'', Num (Fin 0))])])]"

definition started_still :: state where
  "started_still = init page (Inr (cat_sheet, config_still)) initial_state"

definition grid_walk :: "(string \<times> jsval) list" where
  "grid_walk = [(''row'', Num (Fin 2)), (''frameCount'', Num (Fin 3)), (''startCol'', Num (Fin 1))]"

definition config_empty_frames :: jsval where
  "config_empty_frames =
     Obj [(''animations'',
           Obj [(''walk'', Obj [(''frames'', Arr []), (''row'', Num (Fin 2)),
                                (''frameCount'', Num (Fin 3))])])]"

definition config_zero_count :: jsval where
  "config_zero_count =
     Obj [(''animations'',
           Obj [(''walk'', Obj [(''row'', Num (Fin 0)), (''frameCount'', Num (Fin 4))]),
                (''idle'', Obj [(''row'', Num (Fin 1)), (''frameCount'', Num (Fin 0))])])]"

definition config_run :: jsval where
  "config_run = Obj [(''animations'', Obj [(''run'', Obj [(''frames'', Arr [frame32])])])]"

definition config_null_defaults :: jsval where
  "config_null_defaults =
     Obj [(''defaults'', Null),
          (''animations'', Obj [(''run'', Obj [(''frames'', Arr [frame32])])])]"

definition config_empty_key :: jsval where
  "config_empty_key = Obj [(''animations'', Obj [('''', Obj [(''frames'', Arr [frame32])])])]"

definition config_empty_default :: jsval where
  "config_empty_default =
     Obj [(''defaultAnimation'', Str ''''),
          (''animations'', Obj [(''walk'', Obj [(''frames'', Arr [frame32])]),
                                ('''', Obj [(''frames'', Arr [frame32])])])]"

definition config_idle_walk :: jsval where
  "config_idle_walk =
     Obj [(''defaultAnimation'', Str ''idle''),
          (''animations'', Obj [(''walk'', Obj [(''frames'', Arr [frame32])]),
                                (''idle'', Obj [(''frames'', Arr [frame32])])])]"

definition config_custom :: jsval where
  "config_custom =
     Obj [(''defaults'', Obj [(''scale'', Num (Fin 2))]),
          (''animations'',
           Obj [(''run'', Obj [(''frames'', Arr [frame32]), (''label'', Str ''Sprint'')])])]"


text \<open>A default animation that is the name of a method of \<^verbatim>\<open>Object.prototype\<close>.\<close>

definition config_default_toString :: jsval where
  "config_default_toString =
     Obj [(''defaultAnimation'', Str ''toString''),
          (''animations'', Obj [(''walk'', Obj [(''frames'', Arr [frame32])])])]"

text \<open>
  Grids that pass the validation: one far from the origin, with \<^verbatim>\<open>"sheetOffsetX": 1e16\<close> and
  \<^verbatim>\<open>"frameWidth": 1\<close>, one whose \<^verbatim>\<open>startCol\<close> is the string \<^verbatim>\<open>"1"\<close>, and one of \<open>2^32\<close> frames.
\<close>

definition grid_far :: "(string \<times> jsval) list" where
  "grid_far =
     [(''row'', Num (Fin 0)), (''frameCount'', Num (Fin 3)),
      (''sheetOffsetX'', Num (Fin 10000000000000000)), (''frameWidth'', Num (Fin 1))]"

definition grid_text_col :: "(string \<times> jsval) list" where
  "grid_text_col =
     [(''row'', Num (Fin 0)), (''frameCount'', Num (Fin 3)), (''startCol'', Str ''1'')]"

definition grid_too_long :: "(string \<times> jsval) list" where
  "grid_too_long = [(''row'', Num (Fin 0)), (''frameCount'', Num (Fin 4294967296))]"

text \<open>
  The number that \<^verbatim>\<open>JSON.parse\<close> reads from a literal: the binary64 value nearest to the
  rational the literal writes. A config with \<^verbatim>\<open>"frameDurationMs": 1e-20\<close>.
\<close>

definition json_number :: "rat \<Rightarrow> jsval" where
  "json_number q = Num (round64 q)"

definition config_tiny :: jsval where
  "config_tiny =
     Obj [(''animations'',
           Obj [(''still'', Obj [(''frames'', Arr [frame32]),
                                 (''frameDurationMs'', json_number (1 / 10 ^ 20))])])]"

definition started_tiny :: state where
  "started_tiny = init page (Inr (cat_sheet, config_tiny)) initial_state"

section \<open>Basic facts\<close>

lemma seqE_simps [simp]:
  "seqE (Inl e) f = Inl e"
  "seqE (Inr x) f = f x"
  by (simp_all add: seqE_def)

lemma js_get_Obj [simp]: "js_get (Obj es) k = Inr (field (Obj es) k)"
  by (simp add: js_get_def)

lemma js_get_ObjProto [simp]: "js_get (ObjProto p es) k = Inr (field (ObjProto p es) k)"
  by (simp add: js_get_def)

lemma js_get_Arr [simp]: "js_get (Arr xs) k = Inr (field (Arr xs) k)"
  by (simp add: js_get_def)

text \<open>The property names of the config are not names of \<^verbatim>\<open>Object.prototype\<close>.\<close>

lemma inherited_config_names [simp]:
  "inherited p ''animations'' = Undefined"
  "inherited p ''defaults'' = Undefined"
  "inherited p ''defaultAnimation'' = Undefined"
  "inherited p ''frames'' = Undefined"
  "inherited p ''row'' = Undefined"
  "inherited p ''frameCount'' = Undefined"
  "inherited p ''startCol'' = Undefined"
  "inherited p ''frameWidth'' = Undefined"
  "inherited p ''frameHeight'' = Undefined"
  "inherited p ''sheetOffsetX'' = Undefined"
  "inherited p ''sheetOffsetY'' = Undefined"
  "inherited p ''label'' = Undefined"
  "inherited p ''frameDurationMs'' = Undefined"
  "inherited p ''scale'' = Undefined"
  "inherited p ''x'' = Undefined"
  "inherited p ''y'' = Undefined"
  "inherited p ''w'' = Undefined"
  "inherited p ''h'' = Undefined"
  "inherited p ''length'' = Undefined"
  by (simp_all add: inherited_def prototype_methods_def)

lemma inherited_other: "k \<notin> set inherited_names \<Longrightarrow> inherited p k = Undefined"
  by (simp add: inherited_def inherited_names_def)

lemma inherited_truthy: "k \<in> set inherited_names \<Longrightarrow> truthy p \<Longrightarrow> truthy (inherited p k)"
  by (auto simp: inherited_def inherited_names_def)

lemma field_Obj:
  "field (Obj es) k =
     (case map_of es k of Some v \<Rightarrow> v | None \<Rightarrow> inherited (Native Object_prototype) k)"
  by simp

lemma field_Obj_Some [simp]: "map_of es k = Some v \<Longrightarrow> field (Obj es) k = v"
  by simp

lemma field_Obj_None: "map_of es k = None \<Longrightarrow> field (Obj es) k = inherited (Native Object_prototype) k"
  by simp

lemma field_Obj_Nil [simp]: "field (Obj []) k = inherited (Native Object_prototype) k"
  by simp

lemma field_Obj_Cons [simp]:
  "field (Obj ((k, v) # es)) k' = (if k' = k then v else field (Obj es) k')"
  by simp

lemma field_ObjProto_Some [simp]: "map_of es k = Some v \<Longrightarrow> field (ObjProto p es) k = v"
  by simp

lemma field_ObjProto_None:
  "map_of es k = None \<Longrightarrow> field (ObjProto (Obj ps) es) k =
     (case map_of ps k of Some v \<Rightarrow> v | None \<Rightarrow> inherited (Obj ps) k)"
  by simp

lemma field_length [simp]: "field (Arr xs) ''length'' = Num (Fin (of_nat (length xs)))"
  by simp

declare field.simps [simp del]

lemma field_primitive [simp]:
  "field Undefined k = Undefined"
  "field Null k = Undefined"
  "field (Bool b) k = Undefined"
  "field (Num n) k = Undefined"
  by (simp_all add: field.simps)

lemma seqE_eq_Inr: "seqE m f = Inr y \<longleftrightarrow> (\<exists>x. m = Inr x \<and> f x = Inr y)"
  by (cases m) simp_all

lemma js_get_eq_Inr: "js_get v k = Inr x \<longleftrightarrow> \<not> nullish v \<and> x = field v k"
  by (auto simp: js_get_def)

lemma truthy_not_nullish: "truthy v \<Longrightarrow> \<not> nullish v"
  by (cases v) simp_all

lemma num_isFinite_iff: "num_isFinite x \<longleftrightarrow> (\<exists>e. x = Fin e)"
  by (cases x) simp_all

lemma num_isInteger_iff: "num_isInteger x \<longleftrightarrow> (\<exists>z. x = Fin (of_int z))"
  by (cases x) auto

lemma Number_isInteger_iff: "Number_isInteger v \<longleftrightarrow> (\<exists>z. v = Num (Fin (of_int z)))"
  by (cases v) (auto simp: Number_isInteger_def num_isInteger_iff)

lemma Number_isFinite_iff: "Number_isFinite v \<longleftrightarrow> (\<exists>a. v = Num (Fin a))"
  by (cases v) (auto simp: Number_isFinite_def num_isFinite_iff)

lemma mapE_Inr:
  "(\<And>x. x \<in> set xs \<Longrightarrow> f x = Inr (g x)) \<Longrightarrow> mapE f xs = Inr (map g xs)"
  by (induction xs) simp_all

section \<open>Binary64 arithmetic\<close>

lemma bits_pos: "0 < n \<Longrightarrow> bits n = 1 + bits (n div 2)"
  by (subst bits.simps) simp

lemma bits_nonpos: "n \<le> 0 \<Longrightarrow> bits n = 0"
  by (subst bits.simps) simp

lemma bits_bounds:
  "0 < n \<Longrightarrow> 1 \<le> bits n \<and> 2 ^ nat (bits n - 1) \<le> n \<and> n < 2 ^ nat (bits n)"
proof (induction n rule: bits.induct)
  case (1 n)
  show ?case
  proof (cases "n div 2 = 0")
    case True
    with 1(2) have "n = 1" by linarith
    then show ?thesis by (simp add: bits_pos bits_nonpos)
  next
    case False
    with 1(2) have h: "0 < n div 2" by linarith
    from 1(1) [OF _ h] 1(2)
    have b: "1 \<le> bits (n div 2)" and lo: "2 ^ nat (bits (n div 2) - 1) \<le> n div 2"
      and hi: "n div 2 < 2 ^ nat (bits (n div 2))"
      by auto
    have eq: "bits n = 1 + bits (n div 2)" using 1(2) by (rule bits_pos)
    have e1: "nat (bits n - 1) = Suc (nat (bits (n div 2) - 1))" using b eq by simp
    have e2: "nat (bits n) = Suc (nat (bits (n div 2)))" using b eq by simp
    have "2 * (n div 2) \<le> n" by simp
    with lo have "2 ^ nat (bits n - 1) \<le> n" unfolding e1 by simp
    moreover have "n < 2 * (n div 2) + 2" by linarith
    with hi have "n < 2 ^ nat (bits n)" unfolding e2 by simp
    ultimately show ?thesis using b eq by simp
  qed
qed

lemma powi2_add: "(2::rat) powi (a + b) = 2 powi a * 2 powi b"
  by (simp add: power_int_add)

lemma powi2_nat: "0 \<le> a \<Longrightarrow> (2::rat) powi a = of_int (2 ^ nat a)"
  by (simp add: power_int_def)

lemma powi2_less_iff: "(2::rat) powi a < 2 powi b \<longleftrightarrow> a < b"
proof
  assume l: "(2::rat) powi a < 2 powi b"
  show "a < b"
  proof (rule ccontr)
    assume "\<not> a < b"
    then have "b \<le> a" by simp
    then have "(2::rat) powi b \<le> 2 powi a" by (intro power_int_increasing) simp_all
    with l show False by simp
  qed
next
  assume "a < b"
  then show "(2::rat) powi a < 2 powi b" by (intro power_int_strict_increasing) simp_all
qed

lemma powi2_le_iff: "(2::rat) powi a \<le> 2 powi b \<longleftrightarrow> a \<le> b"
  using powi2_less_iff [of b a] by (simp add: not_less [symmetric])

lemma bits_powi:
  assumes "0 < n"
  shows "(2::rat) powi (bits n - 1) \<le> of_int n" and "(of_int n :: rat) < 2 powi (bits n)"
proof -
  from bits_bounds [OF assms] have b: "1 \<le> bits n" and lo: "2 ^ nat (bits n - 1) \<le> n"
    and hi: "n < 2 ^ nat (bits n)" by auto
  have "(2::rat) powi (bits n - 1) = of_int (2 ^ nat (bits n - 1))"
    using b by (intro powi2_nat) simp
  also have "\<dots> \<le> of_int n" using lo by (simp only: of_int_le_iff)
  finally show "(2::rat) powi (bits n - 1) \<le> of_int n" .
  have "(of_int n :: rat) < of_int (2 ^ nat (bits n))" using hi by (simp only: of_int_less_iff)
  also have "\<dots> = 2 powi (bits n)" using b by (intro powi2_nat [symmetric]) simp
  finally show "(of_int n :: rat) < 2 powi (bits n)" .
qed

text \<open>\<open>ilog2 x\<close> is the exponent of the power of two at or below \<open>x\<close>.\<close>

lemma ilog2_bounds:
  assumes "0 < x"
  shows "2 powi (ilog2 x) \<le> x" and "x < 2 powi (ilog2 x + 1)"
proof -
  obtain p q where pq: "quotient_of x = (p, q)" by (cases "quotient_of x")
  then have q: "0 < q" by (rule quotient_of_denom_pos)
  from pq have x: "x = of_int p / of_int q" by (rule quotient_of_div)
  with assms q have p: "0 < p" by (simp add: zero_less_divide_iff)
  let ?b = "bits p - bits q"
  have qr: "(0::rat) < of_int q" using q by simp
  have lo: "(2::rat) powi (?b - 1) \<le> x"
  proof -
    have "(2::rat) powi (?b - 1) * of_int q \<le> 2 powi (?b - 1) * 2 powi (bits q)"
      using bits_powi(2) [OF q] by (intro mult_left_mono) simp_all
    also have "\<dots> = 2 powi (bits p - 1)" by (simp add: powi2_add [symmetric])
    also have "\<dots> \<le> of_int p" by (rule bits_powi(1) [OF p])
    finally show ?thesis unfolding x using qr by (simp add: pos_le_divide_eq)
  qed
  have hi: "x < (2::rat) powi (?b + 1)"
  proof -
    have "(of_int p :: rat) < 2 powi (bits p)" by (rule bits_powi(2) [OF p])
    also have "\<dots> = 2 powi (?b + 1) * 2 powi (bits q - 1)" by (simp add: powi2_add [symmetric])
    also have "\<dots> \<le> 2 powi (?b + 1) * of_int q"
      using bits_powi(1) [OF q] by (intro mult_left_mono) simp_all
    finally show ?thesis unfolding x using qr by (simp add: pos_divide_less_eq)
  qed
  have il: "ilog2 x = (if 2 powi ?b \<le> x then ?b else ?b - 1)"
    by (simp add: ilog2_def pq Let_def)
  show "2 powi (ilog2 x) \<le> x" using lo by (simp add: il)
  show "x < 2 powi (ilog2 x + 1)" using hi by (simp add: il not_le)
qed

lemma ilog2_less_iff:
  assumes "0 < x"
  shows "ilog2 x < e \<longleftrightarrow> x < 2 powi e"
proof
  assume "ilog2 x < e"
  then have "ilog2 x + 1 \<le> e" by simp
  then have "(2::rat) powi (ilog2 x + 1) \<le> 2 powi e" by (simp only: powi2_le_iff)
  with ilog2_bounds(2) [OF assms] show "x < 2 powi e" by linarith
next
  assume "x < 2 powi e"
  with ilog2_bounds(1) [OF assms] have "(2::rat) powi (ilog2 x) < 2 powi e" by linarith
  then show "ilog2 x < e" by (simp only: powi2_less_iff)
qed

lemma ilog2_zero: "ilog2 0 = - 2"
  by code_simp

lemma finite_iff: "ilog2 \<bar>r\<bar> < 1024 \<longleftrightarrow> \<bar>r\<bar> < 2 powi 1024"
proof (cases "r = 0")
  case True
  then show ?thesis by (simp add: ilog2_zero)
next
  case False
  then have "0 < \<bar>r\<bar>" by simp
  from ilog2_less_iff [OF this] show ?thesis .
qed

lemma rne_cases:
  "rne y = \<lfloor>y\<rfloor> \<and> y - of_int \<lfloor>y\<rfloor> \<le> 1 / 2 \<or> rne y = \<lfloor>y\<rfloor> + 1 \<and> 1 / 2 \<le> y - of_int \<lfloor>y\<rfloor>"
  by (auto simp: rne_def Let_def)

lemma rne_error: "\<bar>of_int (rne y) - y\<bar> \<le> 1 / 2"
proof -
  have "of_int \<lfloor>y\<rfloor> \<le> y" and "y < of_int \<lfloor>y\<rfloor> + 1" by linarith+
  with rne_cases [of y] show ?thesis by auto
qed

lemma rne_of_int [simp]: "rne (of_int m) = m"
  by (simp add: rne_def)

lemma rne_nonneg: "0 \<le> y \<Longrightarrow> 0 \<le> rne y"
  using rne_cases [of y] by auto

lemma quantum_ge: "- 1074 \<le> quantum x"
  by (simp add: quantum_def)

lemma nearest_zero [simp]: "nearest 0 = 0"
  by (simp add: nearest_def rne_def)

text \<open>\<open>round64\<close> without the logarithm.\<close>

lemma round64_eq:
  "round64 x =
     (if \<bar>nearest x\<bar> < 2 powi 1024 then Fin (nearest x) else if 0 < x then PInf else NInf)"
  using finite_iff [of "nearest x"]
  by (auto simp: round64_def Let_def not_le not_less)

lemma round64_Fin: "round64 x = Fin r \<longleftrightarrow> r = nearest x \<and> \<bar>nearest x\<bar> < 2 powi 1024"
  by (auto simp: round64_eq)

lemma nearest_error: "\<bar>nearest x - x\<bar> \<le> 2 powi quantum x / 2"
proof -
  let ?q = "(2::rat) powi quantum x"
  have q: "0 < ?q" by simp
  have "\<bar>of_int (rne (x / ?q)) - x / ?q\<bar> * ?q \<le> 1 / 2 * ?q"
    using rne_error [of "x / ?q"] q by (intro mult_right_mono) simp_all
  also have "\<bar>of_int (rne (x / ?q)) - x / ?q\<bar> * ?q = \<bar>(of_int (rne (x / ?q)) - x / ?q) * ?q\<bar>"
    using q by (simp add: abs_mult)
  also have "(of_int (rne (x / ?q)) - x / ?q) * ?q = nearest x - x"
    using q by (simp add: nearest_def algebra_simps)
  finally show ?thesis by simp
qed

lemma nearest_nonneg: "0 \<le> x \<Longrightarrow> 0 \<le> nearest x"
  unfolding nearest_def by (intro mult_nonneg_nonneg) (simp_all add: rne_nonneg)

text \<open>Every finite result is a multiple of \<open>2 ^ - 1074\<close>.\<close>

lemma nearest_on_grid:
  assumes "c \<le> quantum x"
  shows "\<exists>n. nearest x = of_int n * 2 powi c"
proof -
  let ?k = "quantum x"
  have k: "0 \<le> ?k - c" using assms by simp
  have "(2::rat) powi ?k = 2 powi (?k - c) * 2 powi c"
    using powi2_add [of "?k - c" c] by simp
  also have "(2::rat) powi (?k - c) = of_int (2 ^ nat (?k - c))"
    using k by (rule powi2_nat)
  finally have "nearest x = of_int (rne (x / 2 powi ?k) * 2 ^ nat (?k - c)) * 2 powi c"
    by (simp add: nearest_def)
  then show ?thesis ..
qed

lemma quantum_bound:
  assumes "x \<noteq> 0"
  shows "2 powi quantum x \<le> max (\<bar>x\<bar> * 2 powi (- 52)) (2 powi (- 1074))"
proof -
  from assms have pos: "0 < \<bar>x\<bar>" by simp
  have "(2::rat) powi (ilog2 \<bar>x\<bar> - 52) = 2 powi (ilog2 \<bar>x\<bar>) * 2 powi (- 52)"
    using powi2_add [of "ilog2 \<bar>x\<bar>" "- 52"] by (simp only: diff_conv_add_uminus)
  also have "\<dots> \<le> \<bar>x\<bar> * 2 powi (- 52)"
    using ilog2_bounds(1) [OF pos] by (intro mult_right_mono) simp_all
  finally have "(2::rat) powi (ilog2 \<bar>x\<bar> - 52) \<le> \<bar>x\<bar> * 2 powi (- 52)" .
  then show ?thesis unfolding quantum_def max_def by (simp only: split: if_splits) auto
qed

lemma quantum_le:
  assumes "x \<noteq> 0" and "\<bar>x\<bar> < 2 powi (k + 53)" and "- 1074 \<le> k"
  shows "quantum x \<le> k"
proof -
  from assms(1) have "0 < \<bar>x\<bar>" by simp
  from ilog2_less_iff [OF this] assms(2) have "ilog2 \<bar>x\<bar> < k + 53" by simp
  with assms(3) show ?thesis by (simp add: quantum_def)
qed

text \<open>A number with at most 53 significant bits, on the grid of \<open>2 ^ k\<close>, is its own rounding.\<close>

lemma nearest_exact:
  assumes "- 1074 \<le> k" and "\<bar>m\<bar> < 2 ^ 53"
  shows "nearest (of_int m * 2 powi k) = of_int m * 2 powi k"
proof (cases "m = 0")
  case True
  then show ?thesis by simp
next
  case False
  let ?x = "of_int m * (2::rat) powi k"
  have x: "?x \<noteq> 0" using False by simp
  have "(of_int \<bar>m\<bar> :: rat) < of_int (2 ^ 53)" using assms(2) by (simp only: of_int_less_iff)
  then have "\<bar>of_int m :: rat\<bar> < 2 ^ 53" by simp
  then have "\<bar>of_int m :: rat\<bar> * 2 powi k < 2 ^ 53 * 2 powi k"
    by (intro mult_strict_right_mono) simp_all
  also have "(2::rat) ^ 53 * 2 powi k = 2 powi (k + 53)"
    by (simp add: power_int_add)
  finally have "\<bar>?x\<bar> < 2 powi (k + 53)" by (simp add: abs_mult)
  from quantum_le [OF x this assms(1)] have le: "0 \<le> k - quantum ?x" by simp
  have "?x / 2 powi quantum ?x = of_int m * 2 powi (k - quantum ?x)"
    by (simp add: power_int_diff)
  also have "\<dots> = of_int (m * 2 ^ nat (k - quantum ?x))"
    using le by (simp add: power_int_def)
  finally have "rne (?x / 2 powi quantum ?x) = m * 2 ^ nat (k - quantum ?x)"
    by (simp only: rne_of_int)
  then have "nearest ?x = of_int m * (2 powi (k - quantum ?x) * 2 powi quantum ?x)"
    unfolding nearest_def using le by (simp add: power_int_def)
  also have "(2::rat) powi (k - quantum ?x) * 2 powi quantum ?x = 2 powi k"
    by (simp add: power_int_add [symmetric])
  finally show ?thesis .
qed

text \<open>Integers below \<open>2^53\<close> in magnitude are binary64 values.\<close>

lemma round64_of_int:
  assumes "\<bar>m\<bar> < 2 ^ 53"
  shows "round64 (of_int m) = Fin (of_int m)"
proof -
  from nearest_exact [OF _ assms, of 0] have n: "nearest (of_int m) = of_int m" by simp
  have "(of_int \<bar>m\<bar> :: rat) < of_int (2 ^ 53)" using assms by (simp only: of_int_less_iff)
  then have "\<bar>of_int m :: rat\<bar> < 2 ^ 53" by simp
  also have "(2::rat) ^ 53 \<le> 2 powi 1024" by (simp add: power_int_def)
  finally show ?thesis by (simp add: round64_eq n)
qed

text \<open>An equation for evaluation that rounds an integer below \<open>2^53\<close> without arithmetic.\<close>

lemma round64_code [code]:
  "round64 x =
     (if of_int \<lfloor>x\<rfloor> = x \<and> \<bar>x\<bar> < 9007199254740992 then Fin x
      else if x = 0 then Fin 0
      else
        let r = nearest x
        in if 1024 \<le> ilog2 \<bar>r\<bar> then (if 0 < x then PInf else NInf) else Fin r)"
proof (cases "of_int \<lfloor>x\<rfloor> = x \<and> \<bar>x\<bar> < 9007199254740992")
  case True
  then have "of_int \<lfloor>x\<rfloor> = x" and small: "\<bar>x\<bar> < 9007199254740992" by blast+
  then have x: "x = of_int \<lfloor>x\<rfloor>" by (simp only:)
  from small have "\<bar>of_int \<lfloor>x\<rfloor> :: rat\<bar> < of_int (2 ^ 53)" by (subst x [symmetric]) simp
  then have "(of_int \<bar>\<lfloor>x\<rfloor>\<bar> :: rat) < of_int (2 ^ 53)" by simp
  then have "\<bar>\<lfloor>x\<rfloor>\<bar> < 2 ^ 53" by (simp only: of_int_less_iff)
  from round64_of_int [OF this] have "round64 x = Fin x" by (subst (1 2) x) simp
  moreover have "(if of_int \<lfloor>x\<rfloor> = x \<and> \<bar>x\<bar> < 9007199254740992 then Fin x
      else if x = 0 then Fin 0
      else
        let r = nearest x
        in if 1024 \<le> ilog2 \<bar>r\<bar> then (if 0 < x then PInf else NInf) else Fin r) = Fin x"
    using True by (rule if_P)
  ultimately show ?thesis by (rule trans [OF _ sym])
next
  case False
  then show ?thesis unfolding round64_def by (simp only: if_False)
qed

lemma round64_numeral [simp]:
  assumes "(numeral w :: int) < 2 ^ 53"
  shows "round64 (numeral w) = Fin (numeral w)"
proof -
  have "\<bar>numeral w :: int\<bar> < 2 ^ 53" using assms by simp
  from round64_of_int [OF this] show ?thesis by simp
qed

lemma round64_small [simp]: "round64 0 = Fin 0" "round64 1 = Fin 1"
  using round64_of_int [of 0] round64_of_int [of 1] by simp_all

lemma round64_of_nat:
  assumes "m < 2 ^ 53"
  shows "round64 (of_nat m) = Fin (of_nat m)"
proof -
  have "\<bar>int m\<bar> < 2 ^ 53" using assms by simp
  from round64_of_int [OF this] show ?thesis by simp
qed

text \<open>
  Subtracting \<open>d\<close> from \<open>t \<ge> d\<close> gives less than \<open>t\<close> as long as \<open>t\<close> is below \<open>2^53 * d\<close>;
  beyond, the difference can round back to \<open>t\<close>.
\<close>

lemma round64_sub_less:
  assumes "0 < d" and "d \<le> t" and "2 powi (- 1074) \<le> d" and "t < 2 ^ 53 * d"
    and "t < 2 powi 1024"
  shows "\<exists>r. round64 (t - d) = Fin r \<and> 0 \<le> r \<and> r < t"
proof -
  let ?x = "t - d"
  have x0: "0 \<le> ?x" using assms(2) by simp
  have near: "nearest ?x < t"
  proof (cases "?x = 0")
    case True
    with assms(1,2) show ?thesis by simp
  next
    case False
    from quantum_bound [OF False]
    have "2 powi quantum ?x \<le> max (\<bar>?x\<bar> * 2 powi (- 52)) (2 powi (- 1074))" .
    moreover have "\<bar>?x\<bar> * 2 powi (- 52) < 2 * d"
    proof -
      have "\<bar>?x\<bar> < t" using x0 assms(1) by simp
      then have "\<bar>?x\<bar> < 2 ^ 53 * d" using assms(4) by simp
      then show ?thesis by (simp add: power_int_minus field_simps)
    qed
    moreover have "2 powi (- 1074) < 2 * d" using assms(1,3) by linarith
    ultimately have "2 powi quantum ?x < 2 * d" by (simp add: max_def split: if_splits)
    with nearest_error [of ?x] have "\<bar>nearest ?x - ?x\<bar> < d" by linarith
    then show ?thesis by linarith
  qed
  have nn: "0 \<le> nearest ?x" using x0 by (rule nearest_nonneg)
  with near assms(5) have "\<bar>nearest ?x\<bar> < 2 powi 1024" by simp
  then have "round64 ?x = Fin (nearest ?x)" by (simp add: round64_eq)
  with nn near show ?thesis by blast
qed

text \<open>
  Adding at most \<open>2^52\<close> durations to a timer below one duration keeps the sum below
  \<open>2^53\<close> durations.
\<close>

lemma round64_add_bound:
  assumes "0 \<le> x" and "x < (2 ^ 52 + 1) * d" and "2 powi (- 1074) \<le> d" and "d < 2 powi 970"
  shows "\<exists>r. round64 x = Fin r \<and> 0 \<le> r \<and> r < 2 ^ 53 * d"
proof -
  have d: "0 < d" using assms(3) zero_less_power_int [of "2::rat" "- 1074"] by linarith
  have near: "nearest x < 2 ^ 53 * d"
  proof (cases "x = 0")
    case True
    with d show ?thesis by simp
  next
    case False
    from quantum_bound [OF False]
    have "2 powi quantum x \<le> max (\<bar>x\<bar> * 2 powi (- 52)) (2 powi (- 1074))" .
    moreover have "\<bar>x\<bar> * 2 powi (- 52) < 2 * d"
    proof -
      have "\<bar>x\<bar> < (2 ^ 52 + 1) * d" using assms(1,2) by simp
      also have "\<dots> \<le> 2 ^ 53 * d" using d by simp
      finally show ?thesis by (simp add: power_int_minus field_simps)
    qed
    moreover have "2 powi (- 1074) < 2 * d" using d assms(3) by linarith
    ultimately have "2 powi quantum x < 2 * d" by (simp add: max_def split: if_splits)
    with nearest_error [of x] have "\<bar>nearest x - x\<bar> < d" by linarith
    then have "nearest x < x + d" by linarith
    also have "\<dots> < (2 ^ 52 + 2) * d" using assms(2) by (simp add: algebra_simps)
    also have "\<dots> \<le> 2 ^ 53 * d" using d by simp
    finally show ?thesis .
  qed
  have nn: "0 \<le> nearest x" using assms(1) by (rule nearest_nonneg)
  have "2 ^ 53 * d < 2 ^ 53 * 2 powi 970" using assms(4) by simp
  also have "\<dots> = 2 powi 1023" by (simp add: power_int_def)
  also have "\<dots> \<le> 2 powi 1024" by (simp only: powi2_le_iff)
  finally have "\<bar>nearest x\<bar> < 2 powi 1024" using nn near by simp
  then have "round64 x = Fin (nearest x)" by (simp add: round64_eq)
  with nn near show ?thesis by blast
qed

lemma round64_grid:
  assumes "round64 x = Fin r"
  shows "\<exists>n. r = of_int n * 2 powi (- 1074)"
  using assms nearest_on_grid [OF quantum_ge, of x] by (simp add: round64_Fin)

lemma round64_finite:
  assumes "round64 x = Fin r"
  shows "\<bar>r\<bar> < 2 powi 1024"
  using assms by (simp add: round64_Fin)

lemma binary64_ge:
  assumes "binary64 d" and "0 < d"
  shows "2 powi (- 1074) \<le> d"
proof -
  from assms(1) have "round64 d = Fin d" by (simp add: binary64_def)
  from round64_grid [OF this] obtain n where n: "d = of_int n * 2 powi (- 1074)" ..
  with assms(2) have "0 < (of_int n :: rat)" by (simp add: zero_less_mult_iff)
  then have "1 \<le> n" by simp
  then have "(1::rat) \<le> of_int n" by simp
  then have "1 * 2 powi (- 1074) \<le> (of_int n :: rat) * 2 powi (- 1074)"
    by (intro mult_right_mono) simp_all
  with n show ?thesis by simp
qed

section \<open>The playback loop\<close>

lemma num_sub_Fin [simp]: "num_sub (Fin a) (Fin b) = round64 (a - b)"
  by (simp add: num_sub_def)

lemma num_mod_of_nat:
  assumes "0 < n"
  shows "num_mod (Fin (of_nat a)) (Fin (of_nat n)) = Fin (of_nat (a mod n))"
proof -
  have q: "(of_nat a :: rat) / of_nat n \<ge> 0" by simp
  have fl: "\<lfloor>(of_nat a :: rat) / of_nat n\<rfloor> = int (a div n)"
    by (simp add: floor_divide_of_nat_eq)
  have "(of_nat a :: rat) = of_nat (n * (a div n) + a mod n)" by simp
  then have "(of_nat a :: rat) - of_nat n * of_nat (a div n) = of_nat (a mod n)"
    by (simp only: of_nat_add of_nat_mult)
  with q fl assms show ?thesis by (simp add: trunc_def)
qed

text \<open>The index arithmetic is exact: an index stays far below \<open>2^53\<close>.\<close>

lemma num_mod_succ:
  assumes "0 < n" and "i < n" and "n < 2 ^ 53"
  shows "num_mod (num_add (Fin (of_nat i)) (Fin 1)) (Fin (of_nat n)) = Fin (of_nat (Suc i mod n))"
proof -
  have "Suc i < 2 ^ 53" using assms(2,3) by simp
  from round64_of_nat [OF this]
  have "num_add (Fin (of_nat i)) (Fin 1) = Fin (of_nat (Suc i))" by (simp add: add.commute)
  then show ?thesis using num_mod_of_nat [OF assms(1), of "Suc i"] by (simp only:)
qed

lemma timer_after_shift: "timer_after d (num_sub t d) k = timer_after d t (Suc k)"
  by (induction k) simp_all

text \<open>A timer that the subtraction leaves as it is stays as it is.\<close>

lemma timer_stuck: "num_sub t d = t \<Longrightarrow> timer_after d t k = t"
  by (induction k) simp_all

text \<open>
  If the timer first falls below the duration after \<open>k\<close> subtractions, the loop makes \<open>k\<close>
  rounds.
\<close>

lemma draw_loop_after:
  assumes n: "0 < n" "n < 2 ^ 53"
  shows "i < n \<Longrightarrow> \<forall>j<k. num_ge (timer_after d t j) d \<Longrightarrow> \<not> num_ge (timer_after d t k) d \<Longrightarrow>
         draw_loop d (Inr (Fin (of_nat n))) t (Fin (of_nat i)) =
           Some (Inr (timer_after d t k, Fin (of_nat ((i + k) mod n))))"
proof (induction k arbitrary: t i)
  case 0
  then show ?case by (subst draw_loop.simps) simp
next
  case (Suc k)
  from Suc.prems(2) have ge: "num_ge t d" by force
  have i': "Suc i mod n < n" using n(1) by simp
  have step: "draw_loop d (Inr (Fin (of_nat n))) t (Fin (of_nat i)) =
     draw_loop d (Inr (Fin (of_nat n))) (num_sub t d) (Fin (of_nat (Suc i mod n)))"
    using ge num_mod_succ [OF n(1) Suc.prems(1) n(2)]
    by (subst draw_loop.simps) (simp del: num_add.simps num_mod.simps)
  have all: "\<forall>j<k. num_ge (timer_after d (num_sub t d) j) d"
  proof (intro allI impI)
    fix j
    assume "j < k"
    then have "Suc j < Suc k" by simp
    with Suc.prems(2) have "num_ge (timer_after d t (Suc j)) d" by blast
    then show "num_ge (timer_after d (num_sub t d) j) d" by (simp only: timer_after_shift)
  qed
  have last: "\<not> num_ge (timer_after d (num_sub t d) k) d"
    unfolding timer_after_shift by (rule Suc.prems(3))
  have idx: "(Suc i mod n + k) mod n = (i + Suc k) mod n"
    by (simp add: mod_add_left_eq)
  show ?case
    unfolding step Suc.IH [OF i' all last] idx by (simp only: timer_after_shift)
qed

text \<open>If the timer never falls below the duration, the loop does not return.\<close>

lemma draw_loop_never:
  assumes "draw_loop a len b i = Some y"
  shows "\<forall>n. len = Inr n \<and> (\<forall>j. num_ge (timer_after a b j) a) \<longrightarrow> False"
  using assms
proof (induction a len b i y rule: draw_loop.raw_induct)
  case (1 f a len b i y)
  show ?case
  proof (intro allI impI)
    fix n
    assume h: "len = Inr n \<and> (\<forall>j. num_ge (timer_after a b j) a)"
    then have ge: "num_ge b a" by (metis timer_after.simps(1))
    with 1(2) h have next_round: "f a len (num_sub b a) (num_mod (num_add i (Fin 1)) n) = Some y"
      by simp
    have "draw_loop a len b i = draw_loop a len (num_sub b a) (num_mod (num_add i (Fin 1)) n)"
      using h ge by (subst draw_loop.simps) simp
    with 1(3) have real_round:
      "draw_loop a len (num_sub b a) (num_mod (num_add i (Fin 1)) n) = Some y"
      by simp
    have "\<forall>j. num_ge (timer_after a (num_sub b a) j) a"
    proof
      fix j
      from h have "num_ge (timer_after a b (Suc j)) a" by blast
      then show "num_ge (timer_after a (num_sub b a) j) a" by (simp only: timer_after_shift)
    qed
    with 1(1) [OF next_round real_round] h show False by blast
  qed
qed (rule assms)

lemma draw_loop_forever:
  assumes "\<forall>j. num_ge (timer_after d t j) d"
  shows "draw_loop d (Inr n) t i = None"
proof (cases "draw_loop d (Inr n) t i")
  case None
  then show ?thesis .
next
  case (Some y)
  from draw_loop_never [OF Some] assms show ?thesis by blast
qed

text \<open>So a loop that returns has made some number of rounds, and the index is in range.\<close>

lemma draw_loop_Some:
  assumes "draw_loop d (Inr (Fin (of_nat n))) t (Fin (of_nat i)) = Some y"
    and "0 < n" and "n < 2 ^ 53" and "i < n"
  shows "\<exists>k. (\<forall>j<k. num_ge (timer_after d t j) d) \<and> \<not> num_ge (timer_after d t k) d \<and>
           y = Inr (timer_after d t k, Fin (of_nat ((i + k) mod n)))"
proof -
  have "\<exists>j. \<not> num_ge (timer_after d t j) d"
  proof (rule ccontr)
    assume "\<not> (\<exists>j. \<not> num_ge (timer_after d t j) d)"
    then have "\<forall>j. num_ge (timer_after d t j) d" by simp
    from draw_loop_forever [OF this] assms(1) show False by simp
  qed
  then obtain k where k: "\<not> num_ge (timer_after d t k) d"
    and least: "\<forall>j<k. num_ge (timer_after d t j) d"
    using exists_least_iff [of "\<lambda>j. \<not> num_ge (timer_after d t j) d"] by auto
  from draw_loop_after [OF assms(2,3,4) least k] assms(1)
  have "y = Inr (timer_after d t k, Fin (of_nat ((i + k) mod n)))" by simp
  with k least show ?thesis by blast
qed

text \<open>
  The loop returns when the duration is a positive binary64 value and the timer is below
  \<open>2^53\<close> durations: each subtraction then makes the timer smaller, by at least one step
  of the grid of \<open>2 ^ - 1074\<close>.
\<close>

lemma draw_loop_returns:
  assumes d: "0 < d" "2 powi (- 1074) \<le> d"
  shows "0 \<le> t \<Longrightarrow> t < 2 ^ 53 * d \<Longrightarrow> t < 2 powi 1024 \<Longrightarrow> t = of_int m * 2 powi (- 1074) \<Longrightarrow>
         \<exists>r. draw_loop (Fin d) len (Fin t) index = Some r \<and>
             (\<forall>p. r = Inr p \<longrightarrow> (\<exists>u. fst p = Fin u \<and> 0 \<le> u \<and> u < d))"
proof (induction "nat m" arbitrary: t m index rule: less_induct)
  case less
  show ?case
  proof (cases "d \<le> t")
    case False
    then have "\<not> num_ge (Fin t) (Fin d)" by (simp add: num_ge_def)
    then have "draw_loop (Fin d) len (Fin t) index = Some (Inr (Fin t, index))"
      by (subst draw_loop.simps) simp
    with False less.prems(1) show ?thesis by simp
  next
    case True
    then have ge: "num_ge (Fin t) (Fin d)" by (simp add: num_ge_def)
    show ?thesis
    proof (cases len)
      case (Inl e)
      with ge have "draw_loop (Fin d) len (Fin t) index = Some (Inl e)"
        by (subst draw_loop.simps) simp
      then show ?thesis by simp
    next
      case (Inr n)
      from round64_sub_less [OF d(1) True d(2) less.prems(2,3)]
      obtain r where r: "round64 (t - d) = Fin r" "0 \<le> r" "r < t" by blast
      from round64_grid [OF r(1)] obtain m' where m': "r = of_int m' * 2 powi (- 1074)" ..
      have "(of_int m' :: rat) * 2 powi (- 1074) < of_int m * 2 powi (- 1074)"
        using r(3) m' less.prems(4) by simp
      then have "(of_int m' :: rat) < of_int m"
        by (simp only: mult_less_cancel_right_pos zero_less_power_int zero_less_numeral)
      then have lt: "m' < m" by simp
      have "0 \<le> (of_int m' :: rat) * 2 powi (- 1074)" using r(2) m' by simp
      then have "0 \<le> (of_int m' :: rat)"
        by (simp only: zero_le_mult_iff) (simp add: not_le [symmetric])
      then have "0 \<le> m'" by simp
      with lt have meas: "nat m' < nat m" by simp
      have step: "draw_loop (Fin d) len (Fin t) index =
          draw_loop (Fin d) len (Fin r) (num_mod (num_add index (Fin 1)) n)"
        using ge Inr r(1) by (subst draw_loop.simps) (simp del: num_add.simps num_mod.simps)
      from less.hyps [OF meas r(2) _ _ m', of "num_mod (num_add index (Fin 1)) n"]
        r(3) less.prems(2,3)
      show ?thesis unfolding step by simp
    qed
  qed
qed

section \<open>Drawing\<close>

lemma to_property_key_nat:
  assumes "m < 10 ^ 21"
  shows "to_property_key (Num (Fin (of_nat m))) = Some (show_nat m)"
proof -
  have "(of_nat m :: rat) < of_nat (10 ^ 21)" using assms by (simp only: of_nat_less_iff)
  then show ?thesis by (simp add: to_property_key_def)
qed

lemma frames_length_Arr:
  assumes "map_of es ''frames'' = Some (Arr fs)"
  shows "frames_length (Obj es) = Inr (Fin (of_nat (length fs)))"
  using assms by (simp add: frames_length_def)

lemma getCurrentFrame_ok:
  assumes "map_of es ''frames'' = Some (Arr fs)" and "fs \<noteq> []" and "length fs < 2 ^ 32"
    and "frameIndex s = Fin (of_nat j)"
  shows "\<exists>v. getCurrentFrame s (Obj es) = Inr v"
proof -
  have n: "0 < length fs" using assms(2) by simp
  have m: "num_mod (Fin (of_nat j)) (Fin (of_nat (length fs))) = Fin (of_nat (j mod length fs))"
    by (rule num_mod_of_nat [OF n])
  have "j mod length fs < length fs" using n by simp
  with assms(3) have "j mod length fs < 10 ^ 21" by simp
  from to_property_key_nat [OF this] m assms(2,4) show ?thesis
    by (simp add: getCurrentFrame_def js_index_def field_Obj_Some [OF assms(1)]
          del: num_mod.simps)
qed

text \<open>
  \<^verbatim>\<open>draw\<close> on an entry with a numeric duration and at least one frame: the timer takes the
  elapsed time, and the loop makes as many rounds as it takes the timer to fall below the
  duration.
\<close>

lemma draw_advance:
  assumes "ctx dm" and "active_animation s = Inr (Obj es)"
    and "map_of es ''frameDurationMs'' = Some (Num d)"
    and "map_of es ''frames'' = Some (Arr fs)" and "fs \<noteq> []" and "length fs < 2 ^ 32"
    and "frameIndex s = Fin (of_nat i)" and "i < length fs"
    and "\<forall>j<k. num_ge (timer_after d (num_add (frameTimerMs s) e) j) d"
    and "\<not> num_ge (timer_after d (num_add (frameTimerMs s) e) k) d"
  shows "draw dm e s =
         Some (Inr (s\<lparr>frameTimerMs := timer_after d (num_add (frameTimerMs s) e) k,
                      frameIndex := Fin (of_nat ((i + k) mod length fs))\<rparr>))"
proof -
  let ?s1 = "s\<lparr>frameTimerMs := timer_after d (num_add (frameTimerMs s) e) k,
                frameIndex := Fin (of_nat ((i + k) mod length fs))\<rparr>"
  have n: "0 < length fs" using assms(5) by simp
  have n53: "length fs < 2 ^ 53"
    using assms(6) by (rule less_trans) simp
  have loop: "draw_loop d (Inr (Fin (of_nat (length fs)))) (num_add (frameTimerMs s) e)
        (Fin (of_nat i)) =
        Some (Inr (timer_after d (num_add (frameTimerMs s) e) k,
                   Fin (of_nat ((i + k) mod length fs))))"
    by (rule draw_loop_after [OF n n53 assms(8,9,10)])
  have "frameIndex ?s1 = Fin (of_nat ((i + k) mod length fs))" by simp
  from getCurrentFrame_ok [OF assms(4,5,6) this]
  obtain v where frame: "getCurrentFrame ?s1 (Obj es) = Inr v" ..
  show ?thesis
    using assms(1,2,3,7) loop frame
    by (simp add: draw_def frames_length_Arr [OF assms(4)] del: num_add.simps)
qed

lemma draw_forever:
  assumes "ctx dm" and "active_animation s = Inr (Obj es)"
    and "map_of es ''frameDurationMs'' = Some (Num d)"
    and "map_of es ''frames'' = Some (Arr fs)"
    and "\<forall>j. num_ge (timer_after d (num_add (frameTimerMs s) e) j) d"
  shows "draw dm e s = None"
proof -
  have "draw_loop d (Inr (Fin (of_nat (length fs)))) (num_add (frameTimerMs s) e) (frameIndex s)
        = None"
    by (rule draw_loop_forever [OF assms(5)])
  with assms(1,2,3) show ?thesis
    by (simp add: draw_def frames_length_Arr [OF assms(4)] del: num_add.simps)
qed

lemma active_animation_clock [simp]:
  "active_animation (s\<lparr>frameTimerMs := a, frameIndex := b\<rparr>) = active_animation s"
  by (simp add: active_animation_def)

text \<open>
  A call of \<^verbatim>\<open>draw\<close> that returns has raised no error, has left the frame index in range and,
  with a canvas context, the timer below the duration.
\<close>

lemma draw_Some:
  assumes "active_animation s = Inr (Obj es)"
    and "map_of es ''frameDurationMs'' = Some (Num d)"
    and "map_of es ''frames'' = Some (Arr fs)" and "fs \<noteq> []" and "length fs < 2 ^ 32"
    and "frameIndex s = Fin (of_nat i)" and "i < length fs"
    and "draw dm e s = Some r"
  shows "\<exists>s' j. r = Inr s' \<and> active_animation s' = Inr (Obj es) \<and>
           frameIndex s' = Fin (of_nat j) \<and> j < length fs \<and>
           (ctx dm \<longrightarrow> \<not> num_ge (frameTimerMs s') d)"
proof (cases "ctx dm")
  case False
  with assms(8) have "r = Inr s" by (simp add: draw_def)
  with assms(1,6,7) False show ?thesis by blast
next
  case True
  have n: "0 < length fs" using assms(4) by simp
  have n53: "length fs < 2 ^ 53"
    using assms(5) by (rule less_trans) simp
  let ?T = "num_add (frameTimerMs s) e"
  obtain y where y: "draw_loop d (Inr (Fin (of_nat (length fs)))) ?T (Fin (of_nat i)) = Some y"
    using assms(8) True assms(1,2,6)
    by (cases "draw_loop d (Inr (Fin (of_nat (length fs)))) ?T (Fin (of_nat i))")
      (simp_all add: draw_def frames_length_Arr [OF assms(3)] del: num_add.simps)
  from draw_loop_Some [OF y n n53 assms(7)] obtain k
    where all: "\<forall>j<k. num_ge (timer_after d ?T j) d"
      and last: "\<not> num_ge (timer_after d ?T k) d"
    by blast
  let ?s' = "s\<lparr>frameTimerMs := timer_after d ?T k,
               frameIndex := Fin (of_nat ((i + k) mod length fs))\<rparr>"
  from draw_advance [OF True assms(1,2,3,4,5,6,7) all last] assms(8)
  have "r = Inr ?s'" by simp
  moreover have "active_animation ?s' = Inr (Obj es)" using assms(1) by simp
  moreover have "frameIndex ?s' = Fin (of_nat ((i + k) mod length fs))" by simp
  moreover have "(i + k) mod length fs < length fs" using n by simp
  moreover have "\<not> num_ge (frameTimerMs ?s') d" using last by simp
  ultimately show ?thesis by blast
qed

lemma draws_Some:
  assumes "map_of es ''frameDurationMs'' = Some (Num d)"
    and "map_of es ''frames'' = Some (Arr fs)" and "fs \<noteq> []" and "length fs < 2 ^ 32"
  shows "active_animation s = Inr (Obj es) \<Longrightarrow> frameIndex s = Fin (of_nat i) \<Longrightarrow>
         i < length fs \<Longrightarrow> draws dm deltas s = Some r \<Longrightarrow>
         \<exists>s' j. r = Inr s' \<and> active_animation s' = Inr (Obj es) \<and>
           frameIndex s' = Fin (of_nat j) \<and> j < length fs"
proof (induction deltas arbitrary: s i)
  case Nil
  then show ?case by auto
next
  case (Cons e rest)
  from Cons.prems(4) obtain r1 where r1: "draw dm e s = Some r1"
    by (cases "draw dm e s") simp_all
  from draw_Some [OF Cons.prems(1) assms(1,2,3,4) Cons.prems(2,3) r1]
  obtain s1 j where s1: "r1 = Inr s1" and 1: "active_animation s1 = Inr (Obj es)"
      "frameIndex s1 = Fin (of_nat j)" "j < length fs"
    by blast
  from Cons.prems(4) r1 s1 have "draws dm rest s1 = Some r" by simp
  from Cons.IH [OF 1 this] show ?case .
qed

text \<open>
  \<^verbatim>\<open>draw\<close> returns when the duration is a positive binary64 value and the timer, with the
  elapsed time added, is below \<open>2^53\<close> durations.
\<close>

lemma draw_returns:
  assumes "active_animation s = Inr entry"
    and "field entry ''frameDurationMs'' = Num (Fin d)" and "0 < d" and "binary64 d"
    and "frameTimerMs s = Fin t" and "num_add (Fin t) (Fin e) = Fin u" and "u < 2 ^ 53 * d"
  shows "\<exists>r. draw dm (Fin e) s = Some r"
proof (cases "ctx dm \<and> truthy entry")
  case False
  with assms(1) show ?thesis by (auto simp: draw_def)
next
  case True
  then have nn: "\<not> nullish entry" by (simp add: truthy_not_nullish)
  have small: "2 powi (- 1074) \<le> d" by (rule binary64_ge [OF assms(4,3)])
  from assms(6) have u: "round64 (t + e) = Fin u" by simp
  from round64_grid [OF u] obtain m where m: "u = of_int m * 2 powi (- 1074)" ..
  from round64_finite [OF u] have fin: "u < 2 powi 1024" by simp
  have "\<exists>r. draw_loop (Fin d) (frames_length entry) (Fin u) (frameIndex s) = Some r"
  proof (cases "0 \<le> u")
    case True
    from draw_loop_returns [OF assms(3) small True assms(7) fin m] show ?thesis by blast
  next
    case False
    with assms(3) have "\<not> num_ge (Fin u) (Fin d)" by (simp add: num_ge_def)
    then show ?thesis by (subst draw_loop.simps) simp
  qed
  then obtain r where r: "draw_loop (Fin d) (frames_length entry) (Fin u) (frameIndex s) = Some r"
    ..
  show ?thesis
    using True nn assms(1,2,5,6) r
    by (cases r) (auto simp: draw_def js_get_def Let_def simp del: num_add.simps)
qed

text \<open>
  With elapsed times between 0 and \<open>2^52\<close> durations, every call of a sequence returns:
  the timer is below one duration after each call.
\<close>

lemma draw_continues:
  assumes "active_animation s = Inr (Obj es)"
    and "map_of es ''frameDurationMs'' = Some (Num (Fin d))"
    and "0 < d" and "binary64 d" and "d < 2 powi 970"
    and "map_of es ''frames'' = Some (Arr fs)" and "fs \<noteq> []" and "length fs < 2 ^ 32"
    and "frameIndex s = Fin (of_nat i)" and "i < length fs"
    and "frameTimerMs s = Fin t" and "0 \<le> t" and "t < d"
    and "0 \<le> e" and "e \<le> 2 ^ 52 * d"
  shows "\<exists>s' j u. draw dm (Fin e) s = Some (Inr s') \<and> active_animation s' = Inr (Obj es) \<and>
           frameIndex s' = Fin (of_nat j) \<and> j < length fs \<and>
           frameTimerMs s' = Fin u \<and> 0 \<le> u \<and> u < d"
proof (cases "ctx dm")
  case False
  then have "draw dm (Fin e) s = Some (Inr s)" by (simp add: draw_def)
  with assms(1,9,10,11,12,13) show ?thesis by blast
next
  case True
  have small: "2 powi (- 1074) \<le> d" by (rule binary64_ge [OF assms(4,3)])
  have "0 \<le> t + e" using assms(12,14) by simp
  moreover have "t + e < (2 ^ 52 + 1) * d" using assms(13,15) by (simp add: algebra_simps)
  ultimately obtain T where T: "round64 (t + e) = Fin T" "0 \<le> T" "T < 2 ^ 53 * d"
    using round64_add_bound [OF _ _ small assms(5)] by blast
  from round64_grid [OF T(1)] obtain m where m: "T = of_int m * 2 powi (- 1074)" ..
  from round64_finite [OF T(1)] have fin: "T < 2 powi 1024" by simp
  from draw_loop_returns [OF assms(3) small T(2,3) fin m,
      of "Inr (Fin (of_nat (length fs)))" "Fin (of_nat i)"]
  obtain r where r: "draw_loop (Fin d) (Inr (Fin (of_nat (length fs)))) (Fin T) (Fin (of_nat i))
        = Some r"
    and timer: "\<forall>p. r = Inr p \<longrightarrow> (\<exists>u. fst p = Fin u \<and> 0 \<le> u \<and> u < d)"
    by blast
  have n: "0 < length fs" using assms(7) by simp
  have n53: "length fs < 2 ^ 53"
    using assms(8) by (rule less_trans) simp
  from draw_loop_Some [OF r n n53 assms(10)] obtain k
    where all: "\<forall>j<k. num_ge (timer_after (Fin d) (Fin T) j) (Fin d)"
      and last: "\<not> num_ge (timer_after (Fin d) (Fin T) k) (Fin d)"
      and req: "r = Inr (timer_after (Fin d) (Fin T) k, Fin (of_nat ((i + k) mod length fs)))"
    by blast
  from timer req obtain u where u: "timer_after (Fin d) (Fin T) k = Fin u" "0 \<le> u" "u < d"
    by auto
  have sum: "num_add (frameTimerMs s) (Fin e) = Fin T" using assms(11) T(1) by simp
  let ?s' = "s\<lparr>frameTimerMs := timer_after (Fin d) (Fin T) k,
               frameIndex := Fin (of_nat ((i + k) mod length fs))\<rparr>"
  from draw_advance [OF True assms(1,2,6,7,8,9,10), of k "Fin e"] all last
  have "draw dm (Fin e) s = Some (Inr ?s')" unfolding sum by simp
  moreover have "active_animation ?s' = Inr (Obj es)" using assms(1) by simp
  moreover have "frameIndex ?s' = Fin (of_nat ((i + k) mod length fs))" by simp
  moreover have "(i + k) mod length fs < length fs" using n by simp
  moreover have "frameTimerMs ?s' = Fin u" using u(1) by simp
  ultimately show ?thesis using u(2,3) by blast
qed

lemma draws_continue:
  assumes "map_of es ''frameDurationMs'' = Some (Num (Fin d))"
    and "0 < d" and "binary64 d" and "d < 2 powi 970"
    and "map_of es ''frames'' = Some (Arr fs)" and "fs \<noteq> []" and "length fs < 2 ^ 32"
  shows "active_animation s = Inr (Obj es) \<Longrightarrow> frameIndex s = Fin (of_nat i) \<Longrightarrow>
         i < length fs \<Longrightarrow> frameTimerMs s = Fin t \<Longrightarrow> 0 \<le> t \<Longrightarrow> t < d \<Longrightarrow>
         list_all (\<lambda>x. num_le (Fin 0) x \<and> num_le x (Fin (2 ^ 52 * d))) deltas \<Longrightarrow>
         \<exists>s'. draws dm deltas s = Some (Inr s')"
proof (induction deltas arbitrary: s i t)
  case Nil
  then show ?case by simp
next
  case (Cons x rest)
  from Cons.prems(7) have x: "num_le (Fin 0) x" "num_le x (Fin (2 ^ 52 * d))"
    and rest: "list_all (\<lambda>x. num_le (Fin 0) x \<and> num_le x (Fin (2 ^ 52 * d))) rest"
    by simp_all
  from x obtain e where e: "x = Fin e" "0 \<le> e" "e \<le> 2 ^ 52 * d"
    by (cases x) simp_all
  from draw_continues [OF Cons.prems(1) assms(1,2,3,4,5,6,7) Cons.prems(2,3,4,5,6) e(2,3), of dm]
  obtain s1 j u where s1: "draw dm (Fin e) s = Some (Inr s1)"
    and 1: "active_animation s1 = Inr (Obj es)" "frameIndex s1 = Fin (of_nat j)"
      "j < length fs" "frameTimerMs s1 = Fin u" "0 \<le> u" "u < d"
    by blast
  from Cons.IH [OF 1 rest] s1 e(1) show ?case by simp
qed

lemma table_holder_truthy:
  assumes "js_get v ''animations'' = Inr table" and "\<not> nullish table"
  shows "truthy v"
  using assms by (cases v) (auto simp: js_get_def field.simps split: native.splits)

lemma setAnimation_selects:
  assumes "js_get (animations s) ''animations'' = Inr table"
    and "js_index table key = Inr entry" and "truthy entry"
  shows "setAnimation dm key s =
         Inr (setStatus dm (CurrentAnimation (or_else (field entry ''label'') key))
                (s\<lparr>activeAnimationKey := key, frameIndex := Fin 0, frameTimerMs := Fin 0\<rparr>))"
proof -
  have "\<not> nullish table" using assms(2) by (auto simp: js_index_def split: if_splits)
  from table_holder_truthy [OF assms(1) this] have "truthy (animations s)" .
  with assms truthy_not_nullish [OF assms(3)] show ?thesis
    by (simp add: setAnimation_def js_get_def)
qed

lemma active_animation_setStatus [simp]:
  "active_animation (setStatus dm msg s) = active_animation s"
  by (simp add: active_animation_def setStatus_def)

section \<open>Normalization\<close>

lemma field_update [simp]:
  "field (Obj (AList.update k v al)) k' = (if k' = k then v else field (Obj al) k')"
  by (simp add: field.simps update_conv')

text \<open>An entry is an object literal with four properties.\<close>

lemma normalize_animation_Obj:
  assumes "normalize_animation defaults name animation = Inr e"
  shows "\<exists>members. e = Obj members \<and>
           keys_of members = [''label'', ''frameDurationMs'', ''scale'', ''frames'']"
  using assms
  by (auto simp: normalize_animation_def seqE_eq_Inr Let_def keys_of_def split: if_splits)

lemma normalize_animation_duration:
  assumes "normalize_animation defaults name animation = Inr e"
  shows "field e ''frameDurationMs'' =
         coalesce (field animation ''frameDurationMs'') (field defaults ''frameDurationMs'')"
  using assms
  by (auto simp: normalize_animation_def seqE_eq_Inr js_get_eq_Inr Let_def
           split: if_splits)

text \<open>Reading from a table: an own property, else a property of the prototype.\<close>

lemma field_table_own:
  assumes "map_of (own_entries t) k = Some v" and "table_ok t"
  shows "field t k = v"
  using assms by (cases t rule: table_ok.cases) (simp_all add: field.simps)

lemma field_table_proto:
  assumes "table_ok t" and "prototype_of t = Obj ps"
  shows "field t ''__proto__'' = Obj ps"
proof -
  from assms obtain es where t: "t = ObjProto (Obj ps) es"
    by (cases t rule: table_ok.cases) simp_all
  with assms(1) have "map_of es ''__proto__'' = None" and "map_of ps ''__proto__'' = None"
    by (simp_all add: map_of_eq_None_iff keys_of_def)
  then show ?thesis unfolding t by (simp add: field.simps inherited_def)
qed

lemma field_table_plain:
  assumes "map_of es k = None" and "k \<notin> set inherited_names"
  shows "field (Obj es) k = Undefined"
  using assms by (simp add: field.simps inherited_other)

lemma field_table_inherited:
  assumes "map_of es k = None" and "k \<in> set inherited_names"
  shows "truthy (field (Obj es) k)"
  using assms by (simp add: field.simps inherited_truthy)

text \<open>Assigning an entry to a table.\<close>

lemma js_set_table:
  assumes "table_ok t" and "keys_of members = [''label'', ''frameDurationMs'', ''scale'', ''frames'']"
  shows "\<exists>t'. js_set t k (Obj members) = Inr t' \<and> table_ok t' \<and>
           (\<forall>k'. k' \<noteq> k \<longrightarrow> map_of (own_entries t') k' = map_of (own_entries t) k') \<and>
           (if k = ''__proto__''
            then prototype_of t' = Obj members \<and> own_entries t' = own_entries t
            else prototype_of t' = prototype_of t \<and>
                 own_entries t' = AList.update k (Obj members) (own_entries t))"
proof -
  have ps: "''__proto__'' \<notin> set (keys_of members)" using assms(2) by simp
  show ?thesis
  proof (cases t rule: table_ok.cases)
    case (1 es)
    with assms(1) have "map_of es ''__proto__'' = None"
      by (simp add: map_of_eq_None_iff keys_of_def)
    with 1 assms(1) ps show ?thesis
      by (auto simp: set_prototype_def update_conv' keys_of_def update_keys)
  next
    case (2 qs es)
    with assms(1) have "map_of es ''__proto__'' = None" and "map_of qs ''__proto__'' = None"
      by (simp_all add: map_of_eq_None_iff keys_of_def)
    with 2 assms(1) ps show ?thesis
      by (auto simp: set_prototype_def update_conv' keys_of_def update_keys)
  qed (use assms(1) in simp_all)
qed

lemma normalize_loop_step:
  assumes "normalize_loop defaults ((n, a) # rest) t = Inr t'" and "table_ok t"
  shows "\<exists>members t1. normalize_animation defaults n a = Inr (Obj members) \<and>
           keys_of members = [''label'', ''frameDurationMs'', ''scale'', ''frames''] \<and>
           js_set t n (Obj members) = Inr t1 \<and> table_ok t1 \<and>
           normalize_loop defaults rest t1 = Inr t'"
proof -
  from assms(1) obtain e t1 where e: "normalize_animation defaults n a = Inr e"
    and t1: "js_set t n e = Inr t1" and loop: "normalize_loop defaults rest t1 = Inr t'"
    by (auto simp: seqE_eq_Inr)
  from normalize_animation_Obj [OF e] obtain members where m: "e = Obj members"
    "keys_of members = [''label'', ''frameDurationMs'', ''scale'', ''frames'']"
    by blast
  from js_set_table [OF assms(2) m(2), of n] t1 m(1) have "table_ok t1" by auto
  with e t1 loop m show ?thesis by blast
qed

text \<open>What the loop leaves as it was.\<close>

lemma normalize_loop_keeps:
  "normalize_loop defaults entries t = Inr t' \<Longrightarrow> table_ok t \<Longrightarrow>
   table_ok t' \<and>
   (\<forall>k. k \<notin> fst ` set entries \<longrightarrow> map_of (own_entries t') k = map_of (own_entries t) k) \<and>
   (''__proto__'' \<notin> fst ` set entries \<longrightarrow> prototype_of t' = prototype_of t)"
proof (induction entries arbitrary: t)
  case Nil
  then show ?case by simp
next
  case (Cons p rest)
  obtain n a where p: "p = (n, a)" by (cases p)
  from normalize_loop_step [OF Cons.prems(1) [unfolded p] Cons.prems(2)]
  obtain members t1 where m: "keys_of members = [''label'', ''frameDurationMs'', ''scale'', ''frames'']"
    and t1: "js_set t n (Obj members) = Inr t1" "table_ok t1"
    and loop: "normalize_loop defaults rest t1 = Inr t'"
    by blast
  from js_set_table [OF Cons.prems(2) m, of n] t1(1)
  have own: "\<forall>k'. k' \<noteq> n \<longrightarrow> map_of (own_entries t1) k' = map_of (own_entries t) k'"
    and proto: "n \<noteq> ''__proto__'' \<longrightarrow> prototype_of t1 = prototype_of t"
    by (auto split: if_splits)
  from Cons.IH [OF loop t1(2)] own proto p show ?case by auto
qed

text \<open>Every animation of the config is found in the table under its name.\<close>

lemma normalize_loop_entry:
  "normalize_loop defaults entries t = Inr t' \<Longrightarrow> table_ok t \<Longrightarrow> distinct (map fst entries) \<Longrightarrow>
   (name, animation) \<in> set entries \<Longrightarrow>
   \<exists>e. normalize_animation defaults name animation = Inr e \<and> field t' name = e"
proof (induction entries arbitrary: t)
  case Nil
  then show ?case by simp
next
  case (Cons p rest)
  obtain n a where p: "p = (n, a)" by (cases p)
  from normalize_loop_step [OF Cons.prems(1) [unfolded p] Cons.prems(2)]
  obtain members t1 where e: "normalize_animation defaults n a = Inr (Obj members)"
    and m: "keys_of members = [''label'', ''frameDurationMs'', ''scale'', ''frames'']"
    and t1: "js_set t n (Obj members) = Inr t1" "table_ok t1"
    and loop: "normalize_loop defaults rest t1 = Inr t'"
    by blast
  from Cons.prems(3) p have d: "distinct (map fst rest)" and fresh: "n \<notin> fst ` set rest"
    by auto
  show ?case
  proof (cases "(name, animation) \<in> set rest")
    case True
    from Cons.IH [OF loop t1(2) d True] show ?thesis .
  next
    case False
    with Cons.prems(4) p have here: "name = n" "animation = a" by auto
    from normalize_loop_keeps [OF loop t1(2)] fresh
    have ok: "table_ok t'" and own: "map_of (own_entries t') n = map_of (own_entries t1) n"
      and proto: "''__proto__'' \<notin> fst ` set rest \<longrightarrow> prototype_of t' = prototype_of t1"
      by auto
    have "field t' n = Obj members"
    proof (cases "n = ''__proto__''")
      case True
      with js_set_table [OF Cons.prems(2) m, of n] t1(1)
      have "prototype_of t1 = Obj members" by auto
      with proto fresh True have "prototype_of t' = Obj members" by simp
      from field_table_proto [OF ok this] True show ?thesis by simp
    next
      case False
      with js_set_table [OF Cons.prems(2) m, of n] t1(1)
      have "own_entries t1 = AList.update n (Obj members) (own_entries t)" by auto
      then have "map_of (own_entries t1) n = Some (Obj members)" by (simp add: update_conv')
      with own have "map_of (own_entries t') n = Some (Obj members)" by simp
      from field_table_own [OF this ok] show ?thesis .
    qed
    with e here show ?thesis by simp
  qed
qed

text \<open>The own properties of the table are entries, under the names of the config in their order.\<close>

lemma set_alist_update: "set (AList.update k v al) \<subseteq> insert (k, v) (set al)"
  by (induction al) auto

lemma normalize_loop_values:
  "normalize_loop defaults entries t = Inr t' \<Longrightarrow> table_ok t \<Longrightarrow>
   \<forall>v \<in> snd ` set (own_entries t). \<exists>members. v = Obj members \<Longrightarrow>
   \<forall>v \<in> snd ` set (own_entries t'). \<exists>members. v = Obj members"
proof (induction entries arbitrary: t)
  case Nil
  then show ?case by simp
next
  case (Cons p rest)
  obtain n a where p: "p = (n, a)" by (cases p)
  from normalize_loop_step [OF Cons.prems(1) [unfolded p] Cons.prems(2)]
  obtain members t1 where m: "keys_of members = [''label'', ''frameDurationMs'', ''scale'', ''frames'']"
    and t1: "js_set t n (Obj members) = Inr t1" "table_ok t1"
    and loop: "normalize_loop defaults rest t1 = Inr t'"
    by blast
  from js_set_table [OF Cons.prems(2) m, of n] t1(1)
  have "own_entries t1 = own_entries t \<or>
        own_entries t1 = AList.update n (Obj members) (own_entries t)"
    by (auto split: if_splits)
  moreover note set_alist_update [of n "Obj members" "own_entries t"]
  ultimately have "\<forall>v \<in> snd ` set (own_entries t1). \<exists>members. v = Obj members"
    using Cons.prems(3) by auto
  from Cons.IH [OF loop t1(2) this] show ?case .
qed

lemma normalize_loop_keys:
  "normalize_loop defaults entries t = Inr t' \<Longrightarrow> table_ok t \<Longrightarrow> distinct (map fst entries) \<Longrightarrow>
   fst ` set entries \<inter> fst ` set (own_entries t) = {} \<Longrightarrow>
   map fst (own_entries t') =
     map fst (own_entries t) @ filter (\<lambda>k. k \<noteq> ''__proto__'') (map fst entries)"
proof (induction entries arbitrary: t)
  case Nil
  then show ?case by simp
next
  case (Cons p rest)
  obtain n a where p: "p = (n, a)" by (cases p)
  from normalize_loop_step [OF Cons.prems(1) [unfolded p] Cons.prems(2)]
  obtain members t1 where m: "keys_of members = [''label'', ''frameDurationMs'', ''scale'', ''frames'']"
    and t1: "js_set t n (Obj members) = Inr t1" "table_ok t1"
    and loop: "normalize_loop defaults rest t1 = Inr t'"
    by blast
  from Cons.prems(3) p have d: "distinct (map fst rest)" and fresh: "n \<notin> fst ` set rest"
    by auto
  from Cons.prems(4) p have new: "n \<notin> fst ` set (own_entries t)" by auto
  from js_set_table [OF Cons.prems(2) m, of n] t1(1)
  have keys: "map fst (own_entries t1) =
      map fst (own_entries t) @ filter (\<lambda>k. k \<noteq> ''__proto__'') [n]"
    using new by (auto simp: update_keys split: if_splits)
  have "set (map fst (own_entries t1)) \<subseteq> insert n (set (map fst (own_entries t)))"
    unfolding keys by auto
  then have "fst ` set (own_entries t1) \<subseteq> insert n (fst ` set (own_entries t))"
    by (simp only: set_map)
  moreover from Cons.prems(4) p have "fst ` set rest \<inter> fst ` set (own_entries t) = {}"
    by auto
  ultimately have "fst ` set rest \<inter> fst ` set (own_entries t1) = {}"
    using fresh by blast
  from Cons.IH [OF loop t1(2) d this] keys p show ?case by simp
qed

text \<open>Without an animation named \<^verbatim>\<open>__proto__\<close> the table keeps the default prototype.\<close>

lemma normalize_loop_plain:
  assumes "normalize_loop defaults entries (Obj []) = Inr t'"
    and "''__proto__'' \<notin> fst ` set entries"
  shows "\<exists>es. t' = Obj es"
proof -
  have ok: "table_ok (Obj [])" by (simp add: keys_of_def)
  from normalize_loop_keeps [OF assms(1) ok] assms(2)
  have "table_ok t'" and "prototype_of t' = Native Object_prototype" by simp_all
  then show ?thesis by (cases t' rule: table_ok.cases) simp_all
qed

text \<open>What a successful normalization returns.\<close>

lemma normalizeAnimations_Inr:
  assumes "normalizeAnimations data = Inr normalized"
  shows "\<exists>table.
           normalize_loop (field normalized ''defaults'')
             (own_entries (field data ''animations'')) (Obj []) = Inr table \<and>
           field normalized ''animations'' = table \<and>
           field normalized ''defaults'' =
             Obj (spread (or_else (field data ''defaults'') (Obj [])) base_defaults) \<and>
           normalized =
             Obj (AList.update ''animations'' table
                   (AList.update ''defaults'' (field normalized ''defaults'')
                     (spread data [])))"
  using assms
  by (auto simp: normalizeAnimations_def seqE_eq_Inr js_get_eq_Inr Let_def Object_entries_def
           split: if_splits)

lemma table_ok_empty [simp]: "table_ok (Obj [])"
  by (simp add: keys_of_def)

text \<open>The entry of every animation of a config that normalizes.\<close>

lemma normalized_entry:
  assumes "normalizeAnimations data = Inr normalized"
    and "distinct (map fst (own_entries (field data ''animations'')))"
    and "(name, animation) \<in> set (own_entries (field data ''animations''))"
  shows "normalize_animation (field normalized ''defaults'') name animation =
           Inr (field (field normalized ''animations'') name)"
proof -
  from normalizeAnimations_Inr [OF assms(1)] obtain table
    where loop: "normalize_loop (field normalized ''defaults'')
             (own_entries (field data ''animations'')) (Obj []) = Inr table"
      and tab: "field normalized ''animations'' = table"
    by blast
  from normalize_loop_entry [OF loop table_ok_empty assms(2,3)] tab show ?thesis by auto
qed

section \<open>The frame resolver\<close>

text \<open>The test of \<^verbatim>\<open>buildFramesFromRow\<close> is the negation of the validation rule.\<close>

lemma grid_check_iff:
  "(\<not> Number_isInteger row \<or> \<not> Number_isInteger frameCount \<or> val_lt frameCount (Fin 1) \<or>
    \<not> Number_isFinite frameWidth \<or> \<not> Number_isFinite frameHeight \<or>
    val_le frameWidth (Fin 0) \<or> val_le frameHeight (Fin 0))
   \<longleftrightarrow> \<not> valid_grid row frameCount frameWidth frameHeight"
  by (auto simp: valid_grid_def Number_isInteger_iff Number_isFinite_iff val_lt_def val_le_def
        val_ge_def val_gt_def num_ge_def num_gt_def)

lemma valid_grid_iff:
  "valid_grid row frameCount frameWidth frameHeight \<longleftrightarrow>
   (\<exists>r n w h. row = Num (Fin (of_int r)) \<and> frameCount = Num (Fin (of_nat n)) \<and> 1 \<le> n \<and>
      frameWidth = Num (Fin w) \<and> 0 < w \<and> frameHeight = Num (Fin h) \<and> 0 < h)"
proof
  assume "valid_grid row frameCount frameWidth frameHeight"
  then obtain r z w h where v: "row = Num (Fin (of_int r))" "frameCount = Num (Fin (of_int z))"
    "(1::rat) \<le> of_int z" "frameWidth = Num (Fin w)" "0 < w" "frameHeight = Num (Fin h)" "0 < h"
    by (auto simp: valid_grid_def Number_isInteger_iff Number_isFinite_iff val_ge_def val_gt_def
        num_ge_def num_gt_def)
  from v(3) have "1 \<le> z" by linarith
  then have "(of_int z :: rat) = of_nat (nat z)" and "1 \<le> nat z" by simp_all
  with v show "\<exists>r n w h. row = Num (Fin (of_int r)) \<and> frameCount = Num (Fin (of_nat n)) \<and> 1 \<le> n \<and>
      frameWidth = Num (Fin w) \<and> 0 < w \<and> frameHeight = Num (Fin h) \<and> 0 < h"
    by metis
next
  assume "\<exists>r n w h. row = Num (Fin (of_int r)) \<and> frameCount = Num (Fin (of_nat n)) \<and> 1 \<le> n \<and>
      frameWidth = Num (Fin w) \<and> 0 < w \<and> frameHeight = Num (Fin h) \<and> 0 < h"
  then obtain r n w h where v: "row = Num (Fin (of_int r))" "frameCount = Num (Fin (of_nat n))"
    "1 \<le> n" "frameWidth = Num (Fin w)" "0 < w" "frameHeight = Num (Fin h)" "0 < h"
    by blast
  have "frameCount = Num (Fin (of_int (int n)))" using v(2) by simp
  then have "Number_isInteger frameCount" unfolding Number_isInteger_iff ..
  moreover have "Number_isInteger row" using v(1) unfolding Number_isInteger_iff ..
  ultimately show "valid_grid row frameCount frameWidth frameHeight"
    using v by (simp add: valid_grid_def Number_isFinite_iff val_ge_def val_gt_def
        num_ge_def num_gt_def)
qed

lemma own_or_default:
  "(if nullish (field (Obj es) k) then Inr (field (Obj ds) k) else Inr (field (Obj es) k)) =
   Inr (resolved (Obj es) (Obj ds) k)"
  by (simp add: resolved_def coalesce_def)

text \<open>\<^verbatim>\<open>buildFramesFromRow\<close> on two objects, with the defaults resolved.\<close>

lemma buildFramesFromRow_unfold:
  "buildFramesFromRow (Obj es) (Obj ds) =
     (if \<not> valid_grid (field (Obj es) ''row'') (field (Obj es) ''frameCount'')
             (resolved (Obj es) (Obj ds) ''frameWidth'') (resolved (Obj es) (Obj ds) ''frameHeight'')
      then Inr Null
      else
        seqE (indices (field (Obj es) ''frameCount'')) (\<lambda>positions.
        seqE (mapE (\<lambda>index.
                seqE (js_plus (coalesce (field (Obj es) ''startCol'') (Num (Fin 0)))
                        (Num (Fin (of_nat index)))) (\<lambda>col.
                seqE (js_times col (resolved (Obj es) (Obj ds) ''frameWidth'')) (\<lambda>across.
                seqE (js_plus (coalesce (resolved (Obj es) (Obj ds) ''sheetOffsetX'') (Num (Fin 0)))
                        across) (\<lambda>x.
                seqE (js_times (field (Obj es) ''row'')
                        (resolved (Obj es) (Obj ds) ''frameHeight'')) (\<lambda>down.
                seqE (js_plus (coalesce (resolved (Obj es) (Obj ds) ''sheetOffsetY'') (Num (Fin 0)))
                        down) (\<lambda>y.
                  Inr (Obj [(''x'', x), (''y'', y),
                            (''w'', resolved (Obj es) (Obj ds) ''frameWidth''),
                            (''h'', resolved (Obj es) (Obj ds) ''frameHeight'')])))))))
              positions)
          (\<lambda>frames. Inr (Arr frames))))"
  unfolding buildFramesFromRow_def
  by (simp only: js_get_Obj seqE_simps own_or_default grid_check_iff Let_def)

lemma buildFramesFromRow_invalid:
  assumes "\<not> valid_grid (field (Obj es) ''row'') (field (Obj es) ''frameCount'')
             (resolved (Obj es) (Obj ds) ''frameWidth'') (resolved (Obj es) (Obj ds) ''frameHeight'')"
  shows "buildFramesFromRow (Obj es) (Obj ds) = Inr Null"
  unfolding buildFramesFromRow_unfold using assms by simp

lemma indices_of_nat:
  assumes "n < 2 ^ 32"
  shows "indices (Num (Fin (of_nat n))) = Inr [0..<n]"
proof -
  have "(of_nat n :: rat) < of_nat (2 ^ 32)" using assms by (simp only: of_nat_less_iff)
  then show ?thesis by (simp add: indices_def)
qed

lemma indices_too_long:
  assumes "2 ^ 32 \<le> n"
  shows "indices (Num (Fin (of_nat n))) = Inl RangeError"
proof -
  have "(of_nat (2 ^ 32) :: rat) \<le> of_nat n" using assms by (simp only: of_nat_le_iff)
  then show ?thesis by (simp add: indices_def)
qed

text \<open>A valid grid with numbers for the start column and the offsets.\<close>

lemma buildFramesFromRow_grid:
  assumes "field (Obj es) ''row'' = Num (Fin (of_int r))"
    and "field (Obj es) ''frameCount'' = Num (Fin (of_nat n))" and "1 \<le> n"
    and "resolved (Obj es) (Obj ds) ''frameWidth'' = Num (Fin w)" and "0 < w"
    and "resolved (Obj es) (Obj ds) ''frameHeight'' = Num (Fin h)" and "0 < h"
    and "coalesce (field (Obj es) ''startCol'') (Num (Fin 0)) = Num c"
    and "coalesce (resolved (Obj es) (Obj ds) ''sheetOffsetX'') (Num (Fin 0)) = Num ox"
    and "coalesce (resolved (Obj es) (Obj ds) ''sheetOffsetY'') (Num (Fin 0)) = Num oy"
  shows "buildFramesFromRow (Obj es) (Obj ds) =
         (if 2 ^ 32 \<le> n then Inl RangeError
          else Inr (Arr (map (grid_frame ox oy c (Fin (of_int r)) (Fin w) (Fin h)) [0..<n])))"
proof -
  have valid: "valid_grid (Num (Fin (of_int r))) (Num (Fin (of_nat n))) (Num (Fin w)) (Num (Fin h))"
    unfolding valid_grid_iff using assms(3,5,7) by blast
  have frames: "mapE (\<lambda>index.
        seqE (js_plus (Num c) (Num (Fin (of_nat index)))) (\<lambda>col.
        seqE (js_times col (Num (Fin w))) (\<lambda>across.
        seqE (js_plus (Num ox) across) (\<lambda>x.
        seqE (js_times (Num (Fin (of_int r))) (Num (Fin h))) (\<lambda>down.
        seqE (js_plus (Num oy) down) (\<lambda>y.
          Inr (Obj [(''x'', x), (''y'', y), (''w'', Num (Fin w)), (''h'', Num (Fin h))])))))))
      [0..<n] = Inr (map (grid_frame ox oy c (Fin (of_int r)) (Fin w) (Fin h)) [0..<n])"
    by (rule mapE_Inr)
      (simp add: js_plus_def js_times_def grid_frame_def del: num_add.simps num_mul.simps)
  show ?thesis
  proof (cases "(2::nat) ^ 32 \<le> n")
    case True
    from indices_too_long [OF True] True valid show ?thesis
      unfolding buildFramesFromRow_unfold assms(1,2,4,6,8,9,10) by simp
  next
    case False
    then have "n < 2 ^ 32" by simp
    from indices_of_nat [OF this] False valid show ?thesis
      unfolding buildFramesFromRow_unfold assms(1,2,4,6,8,9,10) frames
      by (simp add: frames)
  qed
qed

text \<open>
  With integers for the start column, the width and the offset, and every intermediate value
  below \<open>2^53\<close> in magnitude, nothing is rounded and \<open>x\<close> is the number of the
  specification's formula.
\<close>

lemma grid_frame_x_exact:
  assumes "\<bar>c + int i\<bar> < 2 ^ 53" and "\<bar>(c + int i) * w\<bar> < 2 ^ 53"
    and "\<bar>ox + (c + int i) * w\<bar> < 2 ^ 53"
  shows "num_add (Fin (of_int ox)) (num_mul (num_add (Fin (of_int c)) (Fin (of_nat i))) (Fin (of_int w)))
         = Fin (of_int (ox + (c + int i) * w))"
proof -
  have "round64 (of_int c + of_nat i) = Fin (of_int (c + int i))"
    using round64_of_int [OF assms(1)] by simp
  moreover have "round64 (of_int (c + int i) * of_int w) = Fin (of_int ((c + int i) * w))"
    using round64_of_int [OF assms(2)] by simp
  moreover have "round64 (of_int ox + of_int ((c + int i) * w)) = Fin (of_int (ox + (c + int i) * w))"
    using round64_of_int [OF assms(3)] by simp
  ultimately show ?thesis by simp
qed

lemma normalize_animation_frames:
  assumes "normalize_animation defaults name animation = Inr e"
  shows "if isArray (field animation ''frames'')
         then field e ''frames'' = field animation ''frames'' \<and> field animation ''frames'' \<noteq> Arr []
         else buildFramesFromRow animation defaults = Inr (field e ''frames'')"
  using assms
  by (auto simp: normalize_animation_def seqE_eq_Inr js_get_eq_Inr Let_def split: if_splits)

lemma normalize_animation_empty_frames:
  assumes "field animation ''frames'' = Arr []"
  shows "normalize_animation defaults name animation = Inl (NeedsFrames name)"
proof -
  have "\<not> nullish animation" using assms by (cases animation) auto
  with assms show ?thesis by (simp add: normalize_animation_def js_get_def)
qed

lemma normalize_animation_invalid_grid:
  assumes "\<not> valid_grid (field (Obj es) ''row'') (field (Obj es) ''frameCount'')
             (resolved (Obj es) (Obj ds) ''frameWidth'') (resolved (Obj es) (Obj ds) ''frameHeight'')"
    and "\<not> isArray (field (Obj es) ''frames'')"
  shows "normalize_animation (Obj ds) name (Obj es) = Inl (NeedsFrames name)"
  using assms(2) buildFramesFromRow_invalid [OF assms(1)]
  by (simp add: normalize_animation_def)

lemma normalize_loop_first_failure:
  assumes "normalize_animation defaults name animation = Inl e"
  shows "list_all (\<lambda>(n, a). \<not> isl (normalize_animation defaults n a)) pre \<Longrightarrow> table_ok t \<Longrightarrow>
         normalize_loop defaults (pre @ (name, animation) # post) t = Inl e"
proof (induction pre arbitrary: t)
  case Nil
  with assms show ?case by simp
next
  case (Cons p pre)
  obtain n a where p: "p = (n, a)" by (cases p)
  with Cons.prems(1) obtain x where x: "normalize_animation defaults n a = Inr x"
    by (cases "normalize_animation defaults n a") auto
  from normalize_animation_Obj [OF x] obtain members where m: "x = Obj members"
    "keys_of members = [''label'', ''frameDurationMs'', ''scale'', ''frames'']"
    by blast
  from js_set_table [OF Cons.prems(2) m(2), of n] obtain t1
    where t1: "js_set t n (Obj members) = Inr t1" "table_ok t1"
    by blast
  from Cons.prems(1) have "list_all (\<lambda>(n, a). \<not> isl (normalize_animation defaults n a)) pre"
    by simp
  from Cons.IH [OF this t1(2)] x m(1) t1(1) p show ?case by simp
qed

lemma normalizeAnimations_loop_fails:
  assumes "\<not> nullish data" and "\<not> nullish (field data ''animations'')"
    and "normalize_loop (Obj (spread (or_else (field data ''defaults'') (Obj [])) base_defaults))
           (own_entries (field data ''animations'')) (Obj []) = Inl e"
  shows "normalizeAnimations data = Inl e"
  using assms by (simp add: normalizeAnimations_def js_get_def Object_entries_def Let_def)

section \<open>Merging with the spread\<close>

lemma map_of_fold_update:
  "map_of (fold (\<lambda>(k, x). AList.update k x) kvs al) = map_of al ++ map_of (rev kvs)"
proof (induction kvs arbitrary: al)
  case Nil
  then show ?case by simp
next
  case (Cons p kvs)
  obtain k x where p: "p = (k, x)" by (cases p)
  show ?case
    by (rule ext) (simp add: Cons.IH p update_conv' map_add_def split: option.splits)
qed

lemma field_spread:
  "field (Obj (spread v obj)) k =
     (case map_of (rev (own_entries v)) k of Some x \<Rightarrow> x | None \<Rightarrow> field (Obj obj) k)"
  by (simp add: field.simps spread_def map_of_fold_update map_add_def split: option.splits)

lemma map_of_rev_distinct: "distinct (map fst xs) \<Longrightarrow> map_of (rev xs) = map_of xs"
proof (induction xs)
  case Nil
  then show ?case by simp
next
  case (Cons p xs)
  obtain k x where p: "p = (k, x)" by (cases p)
  with Cons.prems have "k \<notin> fst ` set xs" by simp
  then have "map_of xs k = None" by (simp add: map_of_eq_None_iff)
  with Cons p show ?case
    by (auto simp: fun_eq_iff map_add_def split: option.splits)
qed

lemma spread_nothing [simp]: "spread (Obj []) obj = obj"
  by (simp add: spread_def)

lemma map_of_rev_delete:
  "k \<noteq> d \<Longrightarrow> map_of (rev (AList.delete d es)) k = map_of (rev es) k"
proof -
  assume "k \<noteq> d"
  have "rev (AList.delete d es) = AList.delete d (rev es)"
    by (simp add: AList.delete_eq rev_filter)
  with \<open>k \<noteq> d\<close> show ?thesis by simp
qed

text \<open>\<^verbatim>\<open>normalizeAnimations\<close> on an object.\<close>

lemma normalizeAnimations_Obj:
  "normalizeAnimations (Obj es) =
     seqE (Object_entries (field (Obj es) ''animations'')) (\<lambda>entries.
     seqE (normalize_loop
             (Obj (spread (or_else (field (Obj es) ''defaults'') (Obj [])) base_defaults))
             entries (Obj [])) (\<lambda>table.
       Inr (Obj (AList.update ''animations'' table
              (AList.update ''defaults''
                 (Obj (spread (or_else (field (Obj es) ''defaults'') (Obj [])) base_defaults))
                 (spread (Obj es) []))))))"
  by (simp add: normalizeAnimations_def Let_def)

lemma field_normalized:
  "field (Obj (AList.update ''animations'' t (AList.update ''defaults'' d (spread (Obj es) [])))) k =
     (if k = ''animations'' then t else if k = ''defaults'' then d
      else case map_of (rev es) k of
             Some x \<Rightarrow> x
           | None \<Rightarrow> inherited (Native Object_prototype) k)"
  by (simp add: field_spread split: option.splits)

lemma validateAnimations_Obj:
  "validateAnimations (Obj es) =
     (if \<not> truthy (field (Obj es) ''animations'') \<or> typeof (field (Obj es) ''animations'') \<noteq> T_object
      then Inl NeedsAnimationsObject
      else if typeof (field (Obj es) ''defaults'') \<noteq> T_undefined \<and>
              typeof (field (Obj es) ''defaults'') \<noteq> T_object
      then Inl DefaultsNotObject else Inr ())"
  by (simp add: validateAnimations_def)

lemma field_delete [simp]:
  "field (Obj (AList.delete d es)) k =
     (if k = d then inherited (Native Object_prototype) k else field (Obj es) k)"
  by (simp add: field.simps delete_conv')

lemma null_defaults_normalize:
  assumes "field (Obj es) ''defaults'' = Null"
  shows "(\<forall>normalized. normalizeAnimations (Obj es) = Inr normalized \<longrightarrow>
           field normalized ''defaults'' = Obj base_defaults \<and>
           (\<exists>other. normalizeAnimations (Obj (AList.delete ''defaults'' es)) = Inr other \<and>
                    (\<forall>k. field normalized k = field other k))) \<and>
         (\<forall>e. normalizeAnimations (Obj es) = Inl e \<longrightarrow>
              normalizeAnimations (Obj (AList.delete ''defaults'' es)) = Inl e)"
proof -
  let ?es' = "AList.delete ''defaults'' es"
  have d: "or_else (field (Obj es) ''defaults'') (Obj []) = Obj []"
    and d': "or_else (field (Obj ?es') ''defaults'') (Obj []) = Obj []"
    and a: "field (Obj ?es') ''animations'' = field (Obj es) ''animations''"
    using assms by (simp_all add: or_else_def)
  show ?thesis
  proof (cases "Object_entries (field (Obj es) ''animations'')")
    case (Inl e)
    with assms show ?thesis by (simp add: normalizeAnimations_Obj a or_else_def)
  next
    case entries: (Inr entries)
    show ?thesis
    proof (cases "normalize_loop (Obj base_defaults) entries (Obj [])")
      case (Inl e)
      with entries assms show ?thesis by (simp add: normalizeAnimations_Obj a or_else_def)
    next
      case (Inr table)
      have "field (Obj (AList.update ''animations'' table
                (AList.update ''defaults'' (Obj base_defaults) (spread (Obj es) [])))) k =
            field (Obj (AList.update ''animations'' table
                (AList.update ''defaults'' (Obj base_defaults) (spread (Obj ?es') [])))) k" for k
        unfolding field_normalized by (simp add: map_of_rev_delete)
      with entries Inr assms show ?thesis by (simp add: normalizeAnimations_Obj a or_else_def)
    qed
  qed
qed

lemma null_defaults_validate:
  assumes "field (Obj es) ''defaults'' = Null"
  shows "validateAnimations (Obj es) = validateAnimations (Obj (AList.delete ''defaults'' es))"
    and "validateAnimations (Obj es) \<noteq> Inl DefaultsNotObject"
  using assms by (simp_all add: validateAnimations_Obj)

lemma normalize_animation_fields:
  assumes "normalize_animation defaults name animation = Inr e"
  shows "field e ''label'' =
           coalesce (field animation ''label'') (Str (toUpperCase (take 1 name) @ drop 1 name))"
    and "field e ''scale'' = coalesce (field animation ''scale'') (field defaults ''scale'')"
  using assms
  by (auto simp: normalize_animation_def seqE_eq_Inr js_get_eq_Inr Let_def split: if_splits)

lemma merged_defaults_field:
  assumes "normalizeAnimations data = Inr normalized"
    and "or_else (field data ''defaults'') (Obj []) = Obj ds" and "distinct (map fst ds)"
  shows "field (field normalized ''defaults'') k =
           (case map_of ds k of Some v \<Rightarrow> v | None \<Rightarrow> field (Obj base_defaults) k)"
proof -
  from normalizeAnimations_Inr [OF assms(1)] assms(2)
  have "field normalized ''defaults'' = Obj (spread (Obj ds) base_defaults)" by auto
  then show ?thesis by (simp add: field_spread map_of_rev_distinct [OF assms(3)])
qed

section \<open>Selection\<close>

lemma normalized_table_shape:
  assumes "normalizeAnimations data = Inr normalized"
  shows "\<exists>props. normalized = Obj props \<and> table_ok (field normalized ''animations'') \<and>
           (\<forall>v \<in> snd ` set (own_entries (field normalized ''animations'')).
              \<exists>members. v = Obj members)"
proof -
  from normalizeAnimations_Inr [OF assms] obtain table
    where loop: "normalize_loop (field normalized ''defaults'')
             (own_entries (field data ''animations'')) (Obj []) = Inr table"
      and tab: "field normalized ''animations'' = table"
      and shape: "normalized =
             Obj (AList.update ''animations'' table
                   (AList.update ''defaults'' (field normalized ''defaults'')
                     (spread data [])))"
    by blast
  from normalize_loop_keeps [OF loop table_ok_empty] have "table_ok table" by simp
  moreover from normalize_loop_values [OF loop table_ok_empty]
  have "\<forall>v \<in> snd ` set (own_entries table). \<exists>members. v = Obj members" by simp
  ultimately show ?thesis using tab shape by blast
qed

lemma label_of_inherited [simp]: "field (inherited (Native Object_prototype) k) ''label'' = Undefined"
  by (simp add: inherited_def field.simps prototype_methods_def)

text \<open>
  A key that is neither an own property of the table nor a name of \<^verbatim>\<open>Object.prototype\<close>
  selects nothing.
\<close>

lemma setAnimation_unknown:
  assumes "animations s = Obj props" and "field (Obj props) ''animations'' = Obj table"
    and "k \<notin> fst ` set table" and "k \<notin> set inherited_names"
  shows "setAnimation dm (Str k) s = Inr s"
proof -
  from assms(3) have "map_of table k = None" by (simp add: map_of_eq_None_iff)
  from field_table_plain [OF this assms(4)] assms(1,2) show ?thesis
    by (simp add: setAnimation_def js_index_def to_property_key_def)
qed

lemma setAnimation_known:
  assumes "animations s = Obj props" and "field (Obj props) ''animations'' = table"
    and "table_ok table" and "map_of (own_entries table) k = Some (Obj members)"
  shows "setAnimation dm (Str k) s =
         Inr (setStatus dm (CurrentAnimation (or_else (field (Obj members) ''label'') (Str k)))
                (s\<lparr>activeAnimationKey := Str k, frameIndex := Fin 0, frameTimerMs := Fin 0\<rparr>))"
proof -
  have t: "js_get (animations s) ''animations'' = Inr table" using assms(1,2) by simp
  have "\<not> nullish table" using assms(3) by (cases table rule: table_ok.cases) simp_all
  with field_table_own [OF assms(4,3)]
  have "js_index table (Str k) = Inr (Obj members)"
    by (simp add: js_index_def to_property_key_def)
  from setAnimation_selects [OF t this] show ?thesis by simp
qed

text \<open>A name of \<^verbatim>\<open>Object.prototype\<close> that the table does not have is selected all the same.\<close>

lemma setAnimation_inherited:
  assumes "animations s = Obj props" and "field (Obj props) ''animations'' = Obj table"
    and "k \<notin> fst ` set table" and "k \<in> set inherited_names"
  shows "setAnimation dm (Str k) s =
         Inr (setStatus dm (CurrentAnimation (Str k))
                (s\<lparr>activeAnimationKey := Str k, frameIndex := Fin 0, frameTimerMs := Fin 0\<rparr>))"
proof -
  have t: "js_get (animations s) ''animations'' = Inr (Obj table)" using assms(1,2) by simp
  from assms(3) have none: "map_of table k = None" by (simp add: map_of_eq_None_iff)
  then have f: "field (Obj table) k = inherited (Native Object_prototype) k"
    by (rule field_Obj_None)
  then have i: "js_index (Obj table) (Str k) = Inr (inherited (Native Object_prototype) k)"
    by (simp add: js_index_def to_property_key_def)
  have "truthy (inherited (Native Object_prototype) k)"
    using field_table_inherited [OF none assms(4)] f by simp
  from setAnimation_selects [OF t i this] show ?thesis by (simp add: or_else_def)
qed

section \<open>Startup\<close>

lemma startAnimation_table:
  assumes "normalized = Obj props" and "field (Obj props) ''animations'' = table"
    and "table_ok table"
  shows "startAnimation normalized =
           seqE (if truthy (field normalized ''defaultAnimation'')
                 then js_index table (field normalized ''defaultAnimation'')
                 else Inr (field normalized ''defaultAnimation''))
             (\<lambda>found. if truthy found then Inr (field normalized ''defaultAnimation'')
                       else Inr (case own_entries table of
                                   [] \<Rightarrow> Undefined
                                 | (k, v) # rest \<Rightarrow> Str k))"
proof -
  have "\<not> nullish table" using assms(3) by (cases table rule: table_ok.cases) simp_all
  with assms(1,2) show ?thesis
    by (simp add: startAnimation_def Object_entries_def js_get_def cong: if_cong)
qed

lemma startAnimation_default:
  assumes "normalized = Obj props" and "field (Obj props) ''animations'' = table"
    and "table_ok table"
    and "field normalized ''defaultAnimation'' = Str k" and "k \<noteq> []"
    and "truthy (field table k)"
  shows "startAnimation normalized = Inr (Str k)"
proof -
  have "\<not> nullish table" using assms(3) by (cases table rule: table_ok.cases) simp_all
  with assms(4,5,6) show ?thesis unfolding startAnimation_table [OF assms(1,2,3)]
    by (simp add: js_index_def to_property_key_def)
qed

lemma startAnimation_first:
  assumes "normalized = Obj props" and "field (Obj props) ''animations'' = table"
    and "table_ok table"
    and "\<not> truthy (field normalized ''defaultAnimation'') \<or>
         (\<exists>k. field normalized ''defaultAnimation'' = Str k \<and> \<not> truthy (field table k))"
  shows "startAnimation normalized =
           Inr (case own_entries table of [] \<Rightarrow> Undefined | (k, v) # rest \<Rightarrow> Str k)"
  using assms(4)
proof
  assume "\<not> truthy (field normalized ''defaultAnimation'')"
  then show ?thesis unfolding startAnimation_table [OF assms(1,2,3)] by simp
next
  assume "\<exists>k. field normalized ''defaultAnimation'' = Str k \<and> \<not> truthy (field table k)"
  then obtain k where k: "field normalized ''defaultAnimation'' = Str k"
    and "\<not> truthy (field table k)"
    by blast
  moreover have "\<not> nullish table" using assms(3) by (cases table rule: table_ok.cases) simp_all
  ultimately show ?thesis unfolding startAnimation_table [OF assms(1,2,3)]
    by (simp add: js_index_def to_property_key_def)
qed

lemma init_selects:
  assumes "canvas dm" and "ctx dm" and "controlsEl dm" and "statusEl dm"
    and "validateAnimations data = Inr ()" and "normalizeAnimations data = Inr normalized"
    and "normalized = Obj props" and "field (Obj props) ''animations'' = table"
    and "table_ok table"
    and "startAnimation normalized = Inr (Str k)" and "k \<noteq> []"
    and "truthy (field table k)"
  shows "activeAnimationKey (init dm (Inr (img, data)) s) = Str k \<and>
         frameIndex (init dm (Inr (img, data)) s) = Fin 0 \<and>
         frameTimerMs (init dm (Inr (img, data)) s) = Fin 0 \<and>
         scheduled (init dm (Inr (img, data)) s)"
proof -
  let ?s3 = "(setStatus dm Loading s)\<lparr>sheet := Some img, animations := normalized\<rparr>"
  have t: "js_get (animations ?s3) ''animations'' = Inr table" using assms(7,8) by simp
  have "\<not> nullish table" using assms(9) by (cases table rule: table_ok.cases) simp_all
  then have i: "js_index table (Str k) = Inr (field table k)"
    by (simp add: js_index_def to_property_key_def)
  from setAnimation_selects [OF t i assms(12), of dm]
  have "setAnimation dm (Str k) ?s3 =
         Inr (setStatus dm (CurrentAnimation (or_else (field (field table k) ''label'') (Str k)))
                (?s3\<lparr>activeAnimationKey := Str k, frameIndex := Fin 0, frameTimerMs := Fin 0\<rparr>))" .
  with assms(1-6,10,11) show ?thesis
    by (simp add: init_def Let_def setStatus_def)
qed

lemma init_no_animations:
  assumes "canvas dm" and "ctx dm" and "controlsEl dm" and "statusEl dm"
    and "validateAnimations data = Inr ()" and "normalizeAnimations data = Inr normalized"
    and "startAnimation normalized = Inr Undefined"
  shows "status (init dm (Inr (img, data)) s) = Failed NoAnimationsFound \<and>
         activeAnimationKey (init dm (Inr (img, data)) s) = activeAnimationKey s \<and>
         scheduled (init dm (Inr (img, data)) s) = scheduled s"
  using assms by (simp add: init_def Let_def setStatus_def)

text \<open>The table of a config without an animation named \<^verbatim>\<open>__proto__\<close>.\<close>

lemma normalized_table_keys:
  assumes "normalizeAnimations data = Inr normalized"
    and "distinct (map fst (own_entries (field data ''animations'')))"
    and "''__proto__'' \<notin> fst ` set (own_entries (field data ''animations''))"
  shows "\<exists>props table. normalized = Obj props \<and> field (Obj props) ''animations'' = Obj table \<and>
           map fst table = map fst (own_entries (field data ''animations''))"
proof -
  from normalizeAnimations_Inr [OF assms(1)] obtain table
    where loop: "normalize_loop (field normalized ''defaults'')
             (own_entries (field data ''animations'')) (Obj []) = Inr table"
      and tab: "field normalized ''animations'' = table"
    by blast
  from normalized_table_shape [OF assms(1)] obtain props where props: "normalized = Obj props"
    by blast
  from normalize_loop_plain [OF loop assms(3)] obtain es where es: "table = Obj es" ..
  have "filter (\<lambda>k. k \<noteq> ''__proto__'') (map fst (own_entries (field data ''animations''))) =
        map fst (own_entries (field data ''animations''))"
    using assms(3) by (intro filter_True) (auto simp: image_iff)
  with normalize_loop_keys [OF loop table_ok_empty assms(2)] es
  have "map fst es = map fst (own_entries (field data ''animations''))" by simp
  with props tab es show ?thesis by auto
qed

text \<open>
  What startup selects. The default animation is selected when it is the name of an
  animation of the config and not the empty string. The first key is selected, if it is not
  the empty string, when the default animation is falsy or a string that names neither an
  animation nor a property of \<^verbatim>\<open>Object.prototype\<close>, in a config without an animation named
  \<^verbatim>\<open>__proto__\<close>; with no animation at all startup then fails and the render loop is not
  started. A default animation that is a name of \<^verbatim>\<open>Object.prototype\<close> and not an animation is
  selected too.
\<close>

lemma startup_default:
  assumes "canvas dm" and "ctx dm" and "controlsEl dm" and "statusEl dm"
    and "validateAnimations data = Inr ()" and "normalizeAnimations data = Inr normalized"
    and "distinct (map fst (own_entries (field data ''animations'')))"
    and "field normalized ''defaultAnimation'' = Str k" and "k \<noteq> []"
    and "k \<in> fst ` set (own_entries (field data ''animations''))"
  shows "activeAnimationKey (init dm (Inr (img, data)) s) = Str k \<and>
         scheduled (init dm (Inr (img, data)) s)"
proof -
  from normalized_table_shape [OF assms(6)] obtain props
    where props: "normalized = Obj props"
      and ok: "table_ok (field normalized ''animations'')"
    by blast
  from assms(10) obtain a where "(k, a) \<in> set (own_entries (field data ''animations''))"
    by auto
  from normalized_entry [OF assms(6,7) this]
  have e: "normalize_animation (field normalized ''defaults'') k a =
      Inr (field (field normalized ''animations'') k)" .
  from normalize_animation_Obj [OF e] have tr: "truthy (field (field normalized ''animations'') k)"
    by auto
  have tab: "field (Obj props) ''animations'' = field normalized ''animations''"
    using props by simp
  from startAnimation_default [OF props tab ok assms(8,9) tr]
  have "startAnimation normalized = Inr (Str k)" .
  from init_selects [OF assms(1-6) props tab ok this assms(9) tr]
  show ?thesis by simp
qed

lemma startup_first:
  assumes "canvas dm" and "ctx dm" and "controlsEl dm" and "statusEl dm"
    and "validateAnimations data = Inr ()" and "normalizeAnimations data = Inr normalized"
    and "distinct (map fst (own_entries (field data ''animations'')))"
    and "''__proto__'' \<notin> fst ` set (own_entries (field data ''animations''))"
    and "\<not> truthy (field normalized ''defaultAnimation'') \<or>
           (\<exists>k. field normalized ''defaultAnimation'' = Str k \<and>
                k \<notin> fst ` set (own_entries (field data ''animations'')) \<and>
                k \<notin> set inherited_names)"
    and "own_entries (field data ''animations'') = (k0, a0) # rest" and "k0 \<noteq> []"
  shows "activeAnimationKey (init dm (Inr (img, data)) s) = Str k0 \<and>
         scheduled (init dm (Inr (img, data)) s)"
proof -
  from normalized_table_keys [OF assms(6,7,8)] obtain props table
    where props: "normalized = Obj props"
      and table: "field (Obj props) ''animations'' = Obj table"
      and keys: "map fst table = map fst (own_entries (field data ''animations''))"
    by blast
  from normalized_table_shape [OF assms(6)] props table
  have ok: "table_ok (Obj table)" by simp
  from keys have "set (map fst table) = set (map fst (own_entries (field data ''animations'')))"
    by (simp only:)
  then have dom: "fst ` set (own_entries (field data ''animations'')) = fst ` set table"
    by (simp only: set_map)
  from keys assms(10) obtain v0 others where t: "table = (k0, v0) # others"
    by (cases table) auto
  have "\<not> truthy (field normalized ''defaultAnimation'') \<or>
           (\<exists>k. field normalized ''defaultAnimation'' = Str k \<and> \<not> truthy (field (Obj table) k))"
    using assms(9)
  proof
    assume "\<not> truthy (field normalized ''defaultAnimation'')"
    then show ?thesis ..
  next
    assume "\<exists>k. field normalized ''defaultAnimation'' = Str k \<and>
                k \<notin> fst ` set (own_entries (field data ''animations'')) \<and>
                k \<notin> set inherited_names"
    then obtain k where k: "field normalized ''defaultAnimation'' = Str k"
      and "k \<notin> fst ` set table" and inh: "k \<notin> set inherited_names"
      unfolding dom by blast
    then have "map_of table k = None" by (simp add: map_of_eq_None_iff)
    from field_table_plain [OF this inh] k show ?thesis by simp
  qed
  from startAnimation_first [OF props table ok this]
  have start: "startAnimation normalized = Inr (Str k0)" unfolding t by simp
  from assms(10) have "(k0, a0) \<in> set (own_entries (field data ''animations''))" by simp
  from normalized_entry [OF assms(6,7) this]
  have e: "normalize_animation (field normalized ''defaults'') k0 a0 =
      Inr (field (field normalized ''animations'') k0)" .
  from normalize_animation_Obj [OF e] props table
  have tr: "truthy (field (Obj table) k0)" by auto
  from init_selects [OF assms(1-6) props table ok start assms(11) tr]
  show ?thesis by simp
qed

lemma startup_none:
  assumes "canvas dm" and "ctx dm" and "controlsEl dm" and "statusEl dm"
    and "validateAnimations data = Inr ()" and "normalizeAnimations data = Inr normalized"
    and "own_entries (field data ''animations'') = []"
    and "\<not> truthy (field normalized ''defaultAnimation'') \<or>
           (\<exists>k. field normalized ''defaultAnimation'' = Str k \<and> k \<notin> set inherited_names)"
  shows "status (init dm (Inr (img, data)) s) = Failed NoAnimationsFound \<and>
         activeAnimationKey (init dm (Inr (img, data)) s) = activeAnimationKey s \<and>
         scheduled (init dm (Inr (img, data)) s) = scheduled s"
proof -
  have d: "distinct (map fst (own_entries (field data ''animations'')))"
    and np: "''__proto__'' \<notin> fst ` set (own_entries (field data ''animations''))"
    unfolding assms(7) by simp_all
  from normalized_table_keys [OF assms(6) d np] obtain props table
    where props: "normalized = Obj props"
      and table: "field (Obj props) ''animations'' = Obj table"
      and keys: "map fst table = map fst (own_entries (field data ''animations''))"
    by blast
  from keys have t: "table = []" unfolding assms(7) by simp
  have ok: "table_ok (Obj table)" unfolding t by (rule table_ok_empty)
  have "\<not> truthy (field normalized ''defaultAnimation'') \<or>
           (\<exists>k. field normalized ''defaultAnimation'' = Str k \<and> \<not> truthy (field (Obj table) k))"
    using assms(8) unfolding t by (auto simp: inherited_other)
  from startAnimation_first [OF props table ok this]
  have "startAnimation normalized = Inr Undefined" unfolding t by simp
  from init_no_animations [OF assms(1-6) this]
  show ?thesis .
qed

lemma startup_inherited:
  assumes "canvas dm" and "ctx dm" and "controlsEl dm" and "statusEl dm"
    and "validateAnimations data = Inr ()" and "normalizeAnimations data = Inr normalized"
    and "distinct (map fst (own_entries (field data ''animations'')))"
    and "''__proto__'' \<notin> fst ` set (own_entries (field data ''animations''))"
    and "field normalized ''defaultAnimation'' = Str k"
    and "k \<notin> fst ` set (own_entries (field data ''animations''))"
    and "k \<in> set inherited_names"
  shows "activeAnimationKey (init dm (Inr (img, data)) s) = Str k \<and>
         scheduled (init dm (Inr (img, data)) s)"
proof -
  from normalized_table_keys [OF assms(6,7,8)] obtain props table
    where props: "normalized = Obj props"
      and table: "field (Obj props) ''animations'' = Obj table"
      and keys: "map fst table = map fst (own_entries (field data ''animations''))"
    by blast
  from normalized_table_shape [OF assms(6)] props table
  have ok: "table_ok (Obj table)" by simp
  from keys have "set (map fst table) = set (map fst (own_entries (field data ''animations'')))"
    by (simp only:)
  then have "fst ` set (own_entries (field data ''animations'')) = fst ` set table"
    by (simp only: set_map)
  with assms(10) have "k \<notin> fst ` set table" by simp
  then have "map_of table k = None" by (simp add: map_of_eq_None_iff)
  from field_table_inherited [OF this assms(11)] have tr: "truthy (field (Obj table) k)" .
  have ne: "k \<noteq> []" using assms(11) by (auto simp: inherited_names_def prototype_methods_def)
  from startAnimation_default [OF props table ok assms(9) ne tr]
  have "startAnimation normalized = Inr (Str k)" .
  from init_selects [OF assms(1-6) props table ok this ne tr]
  show ?thesis by simp
qed

section \<open>The example inputs, evaluated\<close>

lemma config_still_normalized:
  "normalizeAnimations config_still =
     Inr (Obj [(''animations'',
                Obj [(''still'', Obj [(''label'', Str ''Still''), (''frameDurationMs'', Num (Fin 0)),
                                      (''scale'', Num (Fin 4)), (''frames'', Arr [frame32])])]),
               (''defaults'', Obj base_defaults)])"
  by code_simp

lemma config_run_normalized:
  "normalizeAnimations config_run =
     Inr (Obj [(''animations'',
                Obj [(''run'', Obj [(''label'', Str ''Run''), (''frameDurationMs'', Num (Fin 120)),
                                    (''scale'', Num (Fin 4)), (''frames'', Arr [frame32])])]),
               (''defaults'', Obj base_defaults)])"
  by code_simp

lemma config_null_defaults_normalized:
  "normalizeAnimations config_null_defaults =
     Inr (Obj [(''defaults'', Obj base_defaults),
               (''animations'',
                Obj [(''run'', Obj [(''label'', Str ''Run''), (''frameDurationMs'', Num (Fin 120)),
                                    (''scale'', Num (Fin 4)), (''frames'', Arr [frame32])])])])"
  by code_simp

lemma config_custom_normalized:
  "normalizeAnimations config_custom =
     Inr (Obj [(''defaults'',
                Obj [(''frameDurationMs'', Num (Fin 120)), (''scale'', Num (Fin 2)),
                     (''frameWidth'', Num (Fin 32)), (''frameHeight'', Num (Fin 32)),
                     (''sheetOffsetX'', Num (Fin 0)), (''sheetOffsetY'', Num (Fin 0))]),
               (''animations'',
                Obj [(''run'', Obj [(''label'', Str ''Sprint''), (''frameDurationMs'', Num (Fin 120)),
                                    (''scale'', Num (Fin 2)), (''frames'', Arr [frame32])])])])"
  by code_simp

lemma started_walk4_table:
  "normalizeAnimations config_walk4 = Inr (animations started_walk4)"
  by code_simp

lemma started_walk4_animations:
  "animations started_walk4 = Obj [(''animations'', Obj [(''walk'', Obj walk4_entry)]),
                                   (''defaults'', Obj base_defaults)]"
  by code_simp

lemma started_walk4_active: "active_animation started_walk4 = Inr (Obj walk4_entry)"
  by code_simp

lemma started_walk4_clock:
  "frameIndex started_walk4 = Fin 0" "frameTimerMs started_walk4 = Fin 0"
  by code_simp+

text \<open>
  The end-to-end examples of the specification: with \<^verbatim>\<open>defaultAnimation: "idle"\<close> and the
  animations \<^verbatim>\<open>walk\<close> and \<^verbatim>\<open>idle\<close> startup selects \<^verbatim>\<open>idle\<close>; with no default animation it
  selects the key declared first.
\<close>

lemma startup_examples:
  "activeAnimationKey (init page (Inr (cat_sheet, config_idle_walk)) initial_state) = Str ''idle''"
  "scheduled (init page (Inr (cat_sheet, config_idle_walk)) initial_state)"
  "activeAnimationKey (init page (Inr (cat_sheet, config_run)) initial_state) = Str ''run''"
  "status (init page (Inr (cat_sheet, config_run)) initial_state) = CurrentAnimation (Str ''Run'')"
  by code_simp+

section \<open>The claims\<close>

subsection \<open>C1: explicit frames and the grid\<close>

text \<open>
  Claim C1 says that an empty \<^verbatim>\<open>frames\<close> array makes normalization fall back on the grid
  parameters. It does not: with
  \<^verbatim>\<open>{"animations": {"walk": {"frames": [], "row": 2, "frameCount": 3}}}\<close> normalization fails
  with the error for \<^verbatim>\<open>walk\<close>, although the grid parameters of that animation are valid and
  \<^verbatim>\<open>buildFramesFromRow\<close> would give three frames for them.
\<close>

theorem empty_frames_counterexample:
  "normalizeAnimations config_empty_frames = Inl (NeedsFrames ''walk'')
   \<and> buildFramesFromRow
       (Obj [(''frames'', Arr []), (''row'', Num (Fin 2)), (''frameCount'', Num (Fin 3))])
       (Obj base_defaults) =
     Inr (Arr [Obj [(''x'', Num (Fin 0)), (''y'', Num (Fin 64)), (''w'', Num (Fin 32)),
                    (''h'', Num (Fin 32))],
               Obj [(''x'', Num (Fin 32)), (''y'', Num (Fin 64)), (''w'', Num (Fin 32)),
                    (''h'', Num (Fin 32))],
               Obj [(''x'', Num (Fin 64)), (''y'', Num (Fin 64)), (''w'', Num (Fin 32)),
                    (''h'', Num (Fin 32))]])"
  by code_simp

text \<open>
  Claim C1, amended. For every named animation of a config that normalizes, the entry's frames
  are the \<^verbatim>\<open>frames\<close> value of the animation whenever that value is an array, which then is not
  empty, and otherwise what \<^verbatim>\<open>buildFramesFromRow\<close> derives from the grid parameters and the
  merged defaults. An animation whose \<^verbatim>\<open>frames\<close> is the empty array is rejected with the error
  naming it, whatever its grid parameters are.
\<close>

theorem frames_resolution:
  "(\<forall>data normalized name animation.
      normalizeAnimations data = Inr normalized \<and>
      distinct (map fst (own_entries (field data ''animations''))) \<and>
      (name, animation) \<in> set (own_entries (field data ''animations'')) \<longrightarrow>
      (if isArray (field animation ''frames'')
       then field (field (field normalized ''animations'') name) ''frames'' =
              field animation ''frames'' \<and>
            field animation ''frames'' \<noteq> Arr []
       else buildFramesFromRow animation (field normalized ''defaults'') =
              Inr (field (field (field normalized ''animations'') name) ''frames'')))
   \<and> (\<forall>defaults name animation.
        field animation ''frames'' = Arr [] \<longrightarrow>
        normalize_animation defaults name animation = Inl (NeedsFrames name))"
proof (intro conjI allI impI)
  fix data normalized name animation
  assume h: "normalizeAnimations data = Inr normalized \<and>
      distinct (map fst (own_entries (field data ''animations''))) \<and>
      (name, animation) \<in> set (own_entries (field data ''animations''))"
  then have e: "normalize_animation (field normalized ''defaults'') name animation =
      Inr (field (field normalized ''animations'') name)"
    by (elim conjE, intro normalized_entry) assumption+
  from normalize_animation_frames [OF e]
  show "if isArray (field animation ''frames'')
       then field (field (field normalized ''animations'') name) ''frames'' =
              field animation ''frames'' \<and>
            field animation ''frames'' \<noteq> Arr []
       else buildFramesFromRow animation (field normalized ''defaults'') =
              Inr (field (field (field normalized ''animations'') name) ''frames'')" .
next
  fix defaults name animation
  assume "field animation ''frames'' = Arr []"
  then show "normalize_animation defaults name animation = Inl (NeedsFrames name)"
    by (rule normalize_animation_empty_frames)
qed

theorem frames_resolution_witness:
  "field (field (field (Obj [(''animations'',
                Obj [(''still'', Obj [(''label'', Str ''Still''), (''frameDurationMs'', Num (Fin 0)),
                                      (''scale'', Num (Fin 4)), (''frames'', Arr [frame32])])]),
               (''defaults'', Obj base_defaults)]) ''animations'') ''still'') ''frames'' =
     Arr [frame32]
   \<and> normalize_animation (Obj base_defaults) ''walk''
       (Obj [(''frames'', Arr []), (''row'', Num (Fin 2)), (''frameCount'', Num (Fin 3))]) =
     Inl (NeedsFrames ''walk'')"
proof -
  note fr = frames_resolution
  have m: "distinct (map fst (own_entries (field config_still ''animations''))) \<and>
      (''still'', Obj [(''frames'', Arr [frame32]), (''frameDurationMs'', Num (Fin 0))])
        \<in> set (own_entries (field config_still ''animations''))"
    by (simp add: config_still_def)
  have one: "field (field (field (Obj [(''animations'',
                Obj [(''still'', Obj [(''label'', Str ''Still''), (''frameDurationMs'', Num (Fin 0)),
                                      (''scale'', Num (Fin 4)), (''frames'', Arr [frame32])])]),
               (''defaults'', Obj base_defaults)]) ''animations'') ''still'') ''frames'' =
     Arr [frame32]"
    using fr [THEN conjunct1, rule_format, OF conjI [OF config_still_normalized m]]
    by simp
  have "field (Obj [(''frames'', Arr []), (''row'', Num (Fin 2)), (''frameCount'', Num (Fin 3))])
          ''frames'' = Arr []"
    by simp
  from fr [THEN conjunct2, rule_format, OF this] one show ?thesis by simp
qed

subsection \<open>C2: the frame duration is not checked\<close>

text \<open>
  Claim C2 says that a normalized entry always has a positive \<^verbatim>\<open>frameDurationMs\<close>, and that
  the loop of \<^verbatim>\<open>draw\<close> therefore ends. Neither holds.
  \<^verbatim>\<open>{"animations": {"still": {"frames": [{"x":0,"y":0,"w":32,"h":32}], "frameDurationMs": 0}}}\<close>
  normalizes without an error to an entry of duration 0, startup selects it and starts the
  render loop, and the first \<^verbatim>\<open>draw\<close> never returns. With \<^verbatim>\<open>"frameDurationMs": 1e-20\<close> in its
  place the duration is positive, and the first \<^verbatim>\<open>draw(16)\<close> never returns either: the
  difference of 16 and the duration is rounded back to 16.
\<close>

theorem zero_duration_counterexample:
  "normalizeAnimations config_still =
     Inr (Obj [(''animations'',
                Obj [(''still'', Obj [(''label'', Str ''Still''), (''frameDurationMs'', Num (Fin 0)),
                                      (''scale'', Num (Fin 4)), (''frames'', Arr [frame32])])]),
               (''defaults'', Obj base_defaults)])
   \<and> animations started_still =
     Obj [(''animations'',
                Obj [(''still'', Obj [(''label'', Str ''Still''), (''frameDurationMs'', Num (Fin 0)),
                                      (''scale'', Num (Fin 4)), (''frames'', Arr [frame32])])]),
               (''defaults'', Obj base_defaults)]
   \<and> activeAnimationKey started_still = Str ''still''
   \<and> scheduled started_still
   \<and> draw page (Fin 16) started_still = None
   \<and> active_animation started_tiny =
       Inr (Obj [(''label'', Str ''Still''),
                 (''frameDurationMs'',
                  Num (Fin (6646139978924579 / 664613997892457936451903530140172288))),
                 (''scale'', Num (Fin 4)), (''frames'', Arr [frame32])])
   \<and> scheduled started_tiny
   \<and> draw page (Fin 16) started_tiny = None"
proof (intro conjI)
  show "normalizeAnimations config_still =
     Inr (Obj [(''animations'',
                Obj [(''still'', Obj [(''label'', Str ''Still''), (''frameDurationMs'', Num (Fin 0)),
                                      (''scale'', Num (Fin 4)), (''frames'', Arr [frame32])])]),
               (''defaults'', Obj base_defaults)])"
    by (rule config_still_normalized)
  show "animations started_still =
     Obj [(''animations'',
                Obj [(''still'', Obj [(''label'', Str ''Still''), (''frameDurationMs'', Num (Fin 0)),
                                      (''scale'', Num (Fin 4)), (''frames'', Arr [frame32])])]),
               (''defaults'', Obj base_defaults)]"
    by code_simp
  show "activeAnimationKey started_still = Str ''still''" by code_simp
  show "scheduled started_still" by code_simp
  have c: "ctx page" by (simp add: page_def)
  have act: "active_animation started_still =
      Inr (Obj [(''label'', Str ''Still''), (''frameDurationMs'', Num (Fin 0)),
                (''scale'', Num (Fin 4)), (''frames'', Arr [frame32])])"
    by code_simp
  have tm: "frameTimerMs started_still = Fin 0" by code_simp
  have "num_sub (Fin 16) (Fin 0) = Fin 16" by simp
  then have "\<forall>j. num_ge (timer_after (Fin 0) (Fin 16) j) (Fin 0)"
    by (simp add: timer_stuck num_ge_def)
  then have "\<forall>j. num_ge (timer_after (Fin 0) (num_add (frameTimerMs started_still) (Fin 16)) j)
      (Fin 0)"
    unfolding tm by simp
  from draw_forever [OF c act _ _ this, of "[frame32]"]
  show "draw page (Fin 16) started_still = None" by simp
  let ?d = "6646139978924579 / 664613997892457936451903530140172288 :: rat"
  show act': "active_animation started_tiny =
      Inr (Obj [(''label'', Str ''Still''), (''frameDurationMs'', Num (Fin ?d)),
                (''scale'', Num (Fin 4)), (''frames'', Arr [frame32])])"
    by code_simp
  show "scheduled started_tiny" by code_simp
  have tm': "frameTimerMs started_tiny = Fin 0" by code_simp
  have "num_sub (Fin 16) (Fin ?d) = Fin 16" by code_simp
  then have "\<forall>j. num_ge (timer_after (Fin ?d) (Fin 16) j) (Fin ?d)"
    by (simp add: timer_stuck num_ge_def)
  then have "\<forall>j. num_ge (timer_after (Fin ?d) (num_add (frameTimerMs started_tiny) (Fin 16)) j)
      (Fin ?d)"
    unfolding tm' by simp
  from draw_forever [OF c act' _ _ this, of "[frame32]"]
  show "draw page (Fin 16) started_tiny = None" by simp
qed

text \<open>
  Claim C2, amended. Normalization does not look at \<^verbatim>\<open>frameDurationMs\<close>: the entry stored for an
  animation holds the animation's own value, or the merged defaults' value when the
  animation's is \<^verbatim>\<open>null\<close> or missing, whatever that value is. The loop of \<^verbatim>\<open>draw\<close> ends
  whenever the active entry's \<^verbatim>\<open>frameDurationMs\<close> is a number \<open>d > 0\<close> and the timer, once the
  elapsed time has been added to it, is a finite number below \<open>2^53 * d\<close>.
\<close>

theorem duration_unchecked:
  "(\<forall>data normalized name animation.
      normalizeAnimations data = Inr normalized \<and>
      distinct (map fst (own_entries (field data ''animations''))) \<and>
      (name, animation) \<in> set (own_entries (field data ''animations'')) \<longrightarrow>
      field (field (field normalized ''animations'') name) ''frameDurationMs'' =
        coalesce (field animation ''frameDurationMs'')
          (field (field normalized ''defaults'') ''frameDurationMs''))
   \<and> (\<forall>dm s entry d t e u.
      active_animation s = Inr entry \<and> field entry ''frameDurationMs'' = Num (Fin d) \<and>
      0 < d \<and> binary64 d \<and> frameTimerMs s = Fin t \<and> num_add (Fin t) (Fin e) = Fin u \<and>
      u < 2 ^ 53 * d \<longrightarrow>
      (\<exists>r. draw dm (Fin e) s = Some r))"
proof (intro conjI allI impI)
  fix data normalized name animation
  assume "normalizeAnimations data = Inr normalized \<and>
      distinct (map fst (own_entries (field data ''animations''))) \<and>
      (name, animation) \<in> set (own_entries (field data ''animations''))"
  then have e: "normalize_animation (field normalized ''defaults'') name animation =
      Inr (field (field normalized ''animations'') name)"
    by (elim conjE, intro normalized_entry) assumption+
  from normalize_animation_duration [OF e]
  show "field (field (field normalized ''animations'') name) ''frameDurationMs'' =
        coalesce (field animation ''frameDurationMs'')
          (field (field normalized ''defaults'') ''frameDurationMs'')" .
next
  fix dm :: dom and s :: state and entry d t e u
  assume "active_animation s = Inr entry \<and> field entry ''frameDurationMs'' = Num (Fin d) \<and>
      0 < d \<and> binary64 d \<and> frameTimerMs s = Fin t \<and> num_add (Fin t) (Fin e) = Fin u \<and>
      u < 2 ^ 53 * d"
  then show "\<exists>r. draw dm (Fin e) s = Some r"
    by (elim conjE, intro draw_returns) assumption+
qed

theorem duration_unchecked_witness:
  "field (field (field (Obj [(''animations'',
                Obj [(''still'', Obj [(''label'', Str ''Still''), (''frameDurationMs'', Num (Fin 0)),
                                      (''scale'', Num (Fin 4)), (''frames'', Arr [frame32])])]),
               (''defaults'', Obj base_defaults)]) ''animations'') ''still'') ''frameDurationMs'' =
     Num (Fin 0)
   \<and> (\<exists>r. draw page (Fin 250) started_walk4 = Some r)"
proof -
  note du = duration_unchecked
  have m: "distinct (map fst (own_entries (field config_still ''animations''))) \<and>
      (''still'', Obj [(''frames'', Arr [frame32]), (''frameDurationMs'', Num (Fin 0))])
        \<in> set (own_entries (field config_still ''animations''))"
    by (simp add: config_still_def)
  have one: "field (field (field (Obj [(''animations'',
                Obj [(''still'', Obj [(''label'', Str ''Still''), (''frameDurationMs'', Num (Fin 0)),
                                      (''scale'', Num (Fin 4)), (''frames'', Arr [frame32])])]),
               (''defaults'', Obj base_defaults)]) ''animations'') ''still'') ''frameDurationMs'' =
     Num (Fin 0)"
    using du [THEN conjunct1, rule_format, OF conjI [OF config_still_normalized m]]
    by (simp add: coalesce_def)
  have "active_animation started_walk4 = Inr (Obj walk4_entry) \<and>
      field (Obj walk4_entry) ''frameDurationMs'' = Num (Fin 100) \<and> (0::rat) < 100 \<and>
      binary64 100 \<and> frameTimerMs started_walk4 = Fin 0 \<and>
      num_add (Fin 0) (Fin 250) = Fin 250 \<and> (250::rat) < 2 ^ 53 * 100"
    using started_walk4_active started_walk4_clock
    by (simp add: walk4_entry_def binary64_def)
  from du [THEN conjunct2, rule_format, OF this, of page] one show ?thesis by simp
qed

subsection \<open>C3: the playback clock\<close>



subsection \<open>C4: the frame index stays in range\<close>



subsection \<open>C5: the frames of a grid\<close>

text \<open>
  Claim C5 says that every grid that passes the validation gives exactly \<open>n\<close> rectangles,
  with \<open>x\<close> growing by \<^verbatim>\<open>frameWidth\<close> from each to the next. Three grids that pass the
  validation do otherwise. With \<^verbatim>\<open>"sheetOffsetX": 1e16\<close> and \<^verbatim>\<open>"frameWidth": 1\<close> the first
  two rectangles have the same \<open>x\<close>, since \<open>10^16 + 1\<close> is rounded to \<open>10^16\<close>. With
  \<^verbatim>\<open>"startCol": "1"\<close> the sum \<^verbatim>\<open>startCol + index\<close> is the string \<^verbatim>\<open>"10"\<close>, \<^verbatim>\<open>"11"\<close>, \<^verbatim>\<open>"12"\<close>,
  and \<open>x\<close> is 320, 352, 384 where the formula gives 32, 64, 96. With a \<^verbatim>\<open>frameCount\<close> of
  \<open>2^32\<close> there is no rectangle at all: \<^verbatim>\<open>Array.from\<close> raises a \<^verbatim>\<open>RangeError\<close>.
\<close>

theorem grid_rounding_counterexample:
  "buildFramesFromRow (Obj grid_far) (Obj base_defaults) =
     Inr (Arr [Obj [(''x'', Num (Fin 10000000000000000)), (''y'', Num (Fin 0)),
                    (''w'', Num (Fin 1)), (''h'', Num (Fin 32))],
               Obj [(''x'', Num (Fin 10000000000000000)), (''y'', Num (Fin 0)),
                    (''w'', Num (Fin 1)), (''h'', Num (Fin 32))],
               Obj [(''x'', Num (Fin 10000000000000002)), (''y'', Num (Fin 0)),
                    (''w'', Num (Fin 1)), (''h'', Num (Fin 32))]])
   \<and> buildFramesFromRow (Obj grid_text_col) (Obj base_defaults) =
     Inr (Arr [Obj [(''x'', Num (Fin 320)), (''y'', Num (Fin 0)),
                    (''w'', Num (Fin 32)), (''h'', Num (Fin 32))],
               Obj [(''x'', Num (Fin 352)), (''y'', Num (Fin 0)),
                    (''w'', Num (Fin 32)), (''h'', Num (Fin 32))],
               Obj [(''x'', Num (Fin 384)), (''y'', Num (Fin 0)),
                    (''w'', Num (Fin 32)), (''h'', Num (Fin 32))]])
   \<and> buildFramesFromRow (Obj grid_too_long) (Obj base_defaults) = Inl RangeError"
  by code_simp

text \<open>
  Claim C5, amended. Let an animation pass the validation of \<^verbatim>\<open>buildFramesFromRow\<close>: \<^verbatim>\<open>row\<close> is
  an integer \<open>r\<close>, \<^verbatim>\<open>frameCount\<close> an integer \<open>n \<ge> 1\<close>, and the resolved \<^verbatim>\<open>frameWidth\<close> and
  \<^verbatim>\<open>frameHeight\<close> are finite numbers \<open>w > 0\<close> and \<open>h > 0\<close>. Let moreover \<open>n\<close> be below
  \<open>2^32\<close>, and \<^verbatim>\<open>startCol\<close> (0 when missing) and the resolved sheet offsets (0 when missing)
  be numbers. Then the result is an array of exactly \<open>n\<close> rectangles, rectangle \<open>i\<close> being
  \<open>{x: sheetOffsetX + (startCol + i) * w, y: sheetOffsetY + r * h, w: w, h: h}\<close> with the sums
  and products of JavaScript, each rounded to binary64; \<open>y\<close>, \<open>w\<close> and \<open>h\<close> are the same in
  all of them. If \<^verbatim>\<open>startCol\<close>, \<open>w\<close> and \<open>sheetOffsetX\<close> are integers and the column, the product
  and the sum stay below \<open>2^53\<close> in magnitude for every index, then \<open>x\<close> is the number of the
  formula, and it grows by \<open>w\<close> from each rectangle to the next, strictly; if the same holds
  of \<open>r\<close>, \<open>h\<close> and \<open>sheetOffsetY\<close>, rectangle \<open>i\<close> is the rectangle of the formula in exact
  arithmetic.
\<close>

theorem grid_frames:
  assumes "field (Obj es) ''row'' = Num (Fin (of_int r))"
    and "field (Obj es) ''frameCount'' = Num (Fin (of_nat n))" and "1 \<le> n" and "n < 2 ^ 32"
    and "resolved (Obj es) (Obj ds) ''frameWidth'' = Num (Fin w)" and "0 < w"
    and "resolved (Obj es) (Obj ds) ''frameHeight'' = Num (Fin h)" and "0 < h"
    and "coalesce (field (Obj es) ''startCol'') (Num (Fin 0)) = Num c"
    and "coalesce (resolved (Obj es) (Obj ds) ''sheetOffsetX'') (Num (Fin 0)) = Num ox"
    and "coalesce (resolved (Obj es) (Obj ds) ''sheetOffsetY'') (Num (Fin 0)) = Num oy"
  shows "\<exists>fs. buildFramesFromRow (Obj es) (Obj ds) = Inr (Arr fs) \<and> length fs = n \<and>
           (\<forall>i<n. fs ! i = grid_frame ox oy c (Fin (of_int r)) (Fin w) (Fin h) i) \<and>
           (\<forall>i<n. field (fs ! i) ''y'' = Num (num_add oy (num_mul (Fin (of_int r)) (Fin h))) \<and>
                  field (fs ! i) ''w'' = Num (Fin w) \<and> field (fs ! i) ''h'' = Num (Fin h)) \<and>
           (\<forall>ci wi oxi.
              c = Fin (of_int ci) \<and> w = of_int wi \<and> ox = Fin (of_int oxi) \<and>
              (\<forall>i<n. \<bar>ci + int i\<bar> < 2 ^ 53 \<and> \<bar>(ci + int i) * wi\<bar> < 2 ^ 53 \<and>
                     \<bar>oxi + (ci + int i) * wi\<bar> < 2 ^ 53) \<longrightarrow>
              (\<forall>i<n. field (fs ! i) ''x'' =
                       Num (Fin (of_int oxi + (of_int ci + of_nat i) * w))) \<and>
              (\<forall>i. Suc i < n \<longrightarrow>
                 (\<exists>x. field (fs ! i) ''x'' = Num (Fin x) \<and>
                      field (fs ! Suc i) ''x'' = Num (Fin (x + w)) \<and> x < x + w)) \<and>
              (\<forall>hi oyi.
                 h = of_int hi \<and> oy = Fin (of_int oyi) \<and>
                 \<bar>r * hi\<bar> < 2 ^ 53 \<and> \<bar>oyi + r * hi\<bar> < 2 ^ 53 \<longrightarrow>
                 (\<forall>i<n. fs ! i =
                    spec_frame (of_int oxi) (of_int oyi) (of_int ci) (of_int r) w h i)))"
proof -
  let ?fs = "map (grid_frame ox oy c (Fin (of_int r)) (Fin w) (Fin h)) [0..<n]"
  have build: "buildFramesFromRow (Obj es) (Obj ds) = Inr (Arr ?fs)"
    using buildFramesFromRow_grid [OF assms(1,2,3,5,6,7,8,9,10,11)] assms(4) by simp
  have len: "length ?fs = n" by simp
  have nth: "\<forall>i<n. ?fs ! i = grid_frame ox oy c (Fin (of_int r)) (Fin w) (Fin h) i" by simp
  have same: "\<forall>i<n. field (?fs ! i) ''y'' = Num (num_add oy (num_mul (Fin (of_int r)) (Fin h))) \<and>
                  field (?fs ! i) ''w'' = Num (Fin w) \<and> field (?fs ! i) ''h'' = Num (Fin h)"
    by (simp add: grid_frame_def del: num_add.simps num_mul.simps)
  have exact: "(\<forall>i<n. field (?fs ! i) ''x'' =
                       Num (Fin (of_int oxi + (of_int ci + of_nat i) * w))) \<and>
              (\<forall>i. Suc i < n \<longrightarrow>
                 (\<exists>x. field (?fs ! i) ''x'' = Num (Fin x) \<and>
                      field (?fs ! Suc i) ''x'' = Num (Fin (x + w)) \<and> x < x + w)) \<and>
              (\<forall>hi oyi.
                 h = of_int hi \<and> oy = Fin (of_int oyi) \<and>
                 \<bar>r * hi\<bar> < 2 ^ 53 \<and> \<bar>oyi + r * hi\<bar> < 2 ^ 53 \<longrightarrow>
                 (\<forall>i<n. ?fs ! i =
                    spec_frame (of_int oxi) (of_int oyi) (of_int ci) (of_int r) w h i))"
    if ints: "c = Fin (of_int ci) \<and> w = of_int wi \<and> ox = Fin (of_int oxi) \<and>
              (\<forall>i<n. \<bar>ci + int i\<bar> < 2 ^ 53 \<and> \<bar>(ci + int i) * wi\<bar> < 2 ^ 53 \<and>
                     \<bar>oxi + (ci + int i) * wi\<bar> < 2 ^ 53)"
    for ci wi oxi
  proof -
    from ints have c: "c = Fin (of_int ci)" and w: "w = of_int wi" and ox: "ox = Fin (of_int oxi)"
      and small: "\<And>i. i < n \<Longrightarrow> \<bar>ci + int i\<bar> < 2 ^ 53 \<and> \<bar>(ci + int i) * wi\<bar> < 2 ^ 53 \<and>
                     \<bar>oxi + (ci + int i) * wi\<bar> < 2 ^ 53"
      by blast+
    have x: "num_add ox (num_mul (num_add c (Fin (of_nat i))) (Fin w)) =
        Fin (of_int oxi + (of_int ci + of_nat i) * w)" if "i < n" for i
      using grid_frame_x_exact [of ci i wi oxi] small [OF that] unfolding c w ox by simp
    have xs: "\<forall>i<n. field (?fs ! i) ''x'' = Num (Fin (of_int oxi + (of_int ci + of_nat i) * w))"
      using x by (simp add: grid_frame_def del: num_add.simps num_mul.simps)
    have grows: "\<forall>i. Suc i < n \<longrightarrow>
                 (\<exists>x. field (?fs ! i) ''x'' = Num (Fin x) \<and>
                      field (?fs ! Suc i) ''x'' = Num (Fin (x + w)) \<and> x < x + w)"
    proof (intro allI impI)
      fix i
      assume i: "Suc i < n"
      then have "i < n" by simp
      with xs have a: "field (?fs ! i) ''x'' = Num (Fin (of_int oxi + (of_int ci + of_nat i) * w))"
        by blast
      from xs i have "field (?fs ! Suc i) ''x'' =
          Num (Fin (of_int oxi + (of_int ci + of_nat (Suc i)) * w))"
        by blast
      then have b: "field (?fs ! Suc i) ''x'' =
          Num (Fin (of_int oxi + (of_int ci + of_nat i) * w + w))"
        by (simp add: algebra_simps)
      from a b assms(6) show "\<exists>x. field (?fs ! i) ''x'' = Num (Fin x) \<and>
                      field (?fs ! Suc i) ''x'' = Num (Fin (x + w)) \<and> x < x + w"
        by simp
    qed
    have whole: "\<forall>i<n. ?fs ! i =
                    spec_frame (of_int oxi) (of_int oyi) (of_int ci) (of_int r) w h i"
      if down: "h = of_int hi \<and> oy = Fin (of_int oyi) \<and>
                 \<bar>r * hi\<bar> < 2 ^ 53 \<and> \<bar>oyi + r * hi\<bar> < 2 ^ 53" for hi oyi
    proof -
      from down have h: "h = of_int hi" and oy: "oy = Fin (of_int oyi)"
        and p: "\<bar>r * hi\<bar> < 2 ^ 53" and q: "\<bar>oyi + r * hi\<bar> < 2 ^ 53"
        by blast+
      have "round64 (of_int r * of_int hi) = Fin (of_int (r * hi))"
        using round64_of_int [OF p] by simp
      moreover have "round64 (of_int oyi + of_int (r * hi)) = Fin (of_int (oyi + r * hi))"
        using round64_of_int [OF q] by simp
      ultimately have y: "num_add oy (num_mul (Fin (of_int r)) (Fin h)) =
          Fin (of_int oyi + of_int r * h)"
        unfolding h oy by simp
      show ?thesis
        using x y by (simp add: grid_frame_def spec_frame_def del: num_add.simps num_mul.simps)
    qed
    from xs grows whole show ?thesis by blast
  qed
  from build len nth same exact show ?thesis by blast
qed

theorem grid_frames_witness:
  "\<exists>fs. buildFramesFromRow (Obj grid_walk) (Obj base_defaults) = Inr (Arr fs) \<and> length fs = 3 \<and>
     fs ! 0 = Obj [(''x'', Num (Fin 32)), (''y'', Num (Fin 64)), (''w'', Num (Fin 32)),
                   (''h'', Num (Fin 32))] \<and>
     fs ! 2 = Obj [(''x'', Num (Fin 96)), (''y'', Num (Fin 64)), (''w'', Num (Fin 32)),
                   (''h'', Num (Fin 32))]"
proof -
  have row: "field (Obj grid_walk) ''row'' = Num (Fin (of_int 2))"
    and cnt: "field (Obj grid_walk) ''frameCount'' = Num (Fin (of_nat 3))"
    and fw: "resolved (Obj grid_walk) (Obj base_defaults) ''frameWidth'' = Num (Fin 32)"
    and fh: "resolved (Obj grid_walk) (Obj base_defaults) ''frameHeight'' = Num (Fin 32)"
    and sc: "coalesce (field (Obj grid_walk) ''startCol'') (Num (Fin 0)) = Num (Fin 1)"
    and ox: "coalesce (resolved (Obj grid_walk) (Obj base_defaults) ''sheetOffsetX'') (Num (Fin 0))
              = Num (Fin 0)"
    and oy: "coalesce (resolved (Obj grid_walk) (Obj base_defaults) ''sheetOffsetY'') (Num (Fin 0))
              = Num (Fin 0)"
    by (simp_all add: grid_walk_def base_defaults_def resolved_def coalesce_def)
  from grid_frames [OF row cnt _ _ fw _ fh _ sc ox oy]
  obtain fs where fs: "buildFramesFromRow (Obj grid_walk) (Obj base_defaults) = Inr (Arr fs)"
      "length fs = 3"
    and exact: "\<forall>ci wi oxi.
              Fin 1 = Fin (of_int ci) \<and> (32::rat) = of_int wi \<and> Fin 0 = Fin (of_int oxi) \<and>
              (\<forall>i<3. \<bar>ci + int i\<bar> < 2 ^ 53 \<and> \<bar>(ci + int i) * wi\<bar> < 2 ^ 53 \<and>
                     \<bar>oxi + (ci + int i) * wi\<bar> < 2 ^ 53) \<longrightarrow>
              (\<forall>hi oyi.
                 (32::rat) = of_int hi \<and> Fin 0 = Fin (of_int oyi) \<and>
                 \<bar>2 * hi\<bar> < 2 ^ 53 \<and> \<bar>oyi + 2 * hi\<bar> < 2 ^ 53 \<longrightarrow>
                 (\<forall>i<3. fs ! i = spec_frame (of_int oxi) (of_int oyi) (of_int ci) (of_int 2) 32 32 i))"
    by auto
  have ints: "Fin 1 = Fin (of_int 1) \<and> (32::rat) = of_int 32 \<and> Fin 0 = Fin (of_int 0) \<and>
              (\<forall>i<3. \<bar>1 + int i\<bar> < 2 ^ 53 \<and> \<bar>(1 + int i) * 32\<bar> < 2 ^ 53 \<and>
                     \<bar>0 + (1 + int i) * 32\<bar> < 2 ^ 53)"
    by simp
  have down: "(32::rat) = of_int 32 \<and> Fin 0 = Fin (of_int 0) \<and>
                 \<bar>2 * 32 :: int\<bar> < 2 ^ 53 \<and> \<bar>0 + 2 * 32 :: int\<bar> < 2 ^ 53"
    by simp
  from exact [rule_format, OF ints, rule_format, OF down]
  have "fs ! 0 = spec_frame (of_int 0) (of_int 0) (of_int 1) (of_int 2) 32 32 0"
    and "fs ! 2 = spec_frame (of_int 0) (of_int 0) (of_int 1) (of_int 2) 32 32 2"
    by simp_all
  with fs show ?thesis by (simp add: spec_frame_def)
qed

subsection \<open>C6: an invalid grid is rejected\<close>

text \<open>
  Claim C6. For an animation that breaks the validation rule (\<^verbatim>\<open>row\<close> or \<^verbatim>\<open>frameCount\<close> not an
  integer, \<^verbatim>\<open>frameCount < 1\<close>, the resolved \<^verbatim>\<open>frameWidth\<close> or \<^verbatim>\<open>frameHeight\<close> not finite or not
  positive) \<^verbatim>\<open>buildFramesFromRow\<close> returns \<^verbatim>\<open>null\<close>. If the animation has no \<^verbatim>\<open>frames\<close> array
  either, its normalization fails with the error that carries its name, whose message quotes
  the name; and so does \<^verbatim>\<open>normalizeAnimations\<close> on a config in which the animations before it
  normalize. A \<^verbatim>\<open>frameCount\<close> of 0 and a \<^verbatim>\<open>row\<close> that is not an integer are two such cases.
\<close>

theorem invalid_grid_rejected:
  "(\<not> valid_grid (field (Obj es) ''row'') (field (Obj es) ''frameCount'')
        (resolved (Obj es) (Obj ds) ''frameWidth'') (resolved (Obj es) (Obj ds) ''frameHeight'')
    \<longrightarrow>
      buildFramesFromRow (Obj es) (Obj ds) = Inr Null \<and>
      (\<not> isArray (field (Obj es) ''frames'') \<longrightarrow>
         normalize_animation (Obj ds) name (Obj es) = Inl (NeedsFrames name) \<and>
         message (NeedsFrames name) =
           Some (''Animation '' @ quoted name @ '' needs either a non-empty '' @ quoted ''frames''
                   @ '' array or valid row/frameCount data.'') \<and>
         (\<forall>data pre post.
            \<not> nullish data \<and>
            own_entries (field data ''animations'') = pre @ (name, Obj es) # post \<and>
            Obj ds = Obj (spread (or_else (field data ''defaults'') (Obj [])) base_defaults) \<and>
            list_all (\<lambda>(n, a). \<not> isl (normalize_animation (Obj ds) n a)) pre \<longrightarrow>
            normalizeAnimations data = Inl (NeedsFrames name))))
   \<and> ((field (Obj es) ''frameCount'' = Num (Fin 0) \<or> \<not> Number_isInteger (field (Obj es) ''row''))
        \<longrightarrow>
        \<not> valid_grid (field (Obj es) ''row'') (field (Obj es) ''frameCount'')
            (resolved (Obj es) (Obj ds) ''frameWidth'') (resolved (Obj es) (Obj ds) ''frameHeight''))"
proof (intro conjI impI allI)
  assume bad: "\<not> valid_grid (field (Obj es) ''row'') (field (Obj es) ''frameCount'')
        (resolved (Obj es) (Obj ds) ''frameWidth'') (resolved (Obj es) (Obj ds) ''frameHeight'')"
  show "buildFramesFromRow (Obj es) (Obj ds) = Inr Null"
    by (rule buildFramesFromRow_invalid [OF bad])
  assume no_frames: "\<not> isArray (field (Obj es) ''frames'')"
  show fails: "normalize_animation (Obj ds) name (Obj es) = Inl (NeedsFrames name)"
    by (rule normalize_animation_invalid_grid [OF bad no_frames])
  show "message (NeedsFrames name) =
           Some (''Animation '' @ quoted name @ '' needs either a non-empty '' @ quoted ''frames''
                   @ '' array or valid row/frameCount data.'')"
    by simp
  fix data pre post
  assume h: "\<not> nullish data \<and>
            own_entries (field data ''animations'') = pre @ (name, Obj es) # post \<and>
            Obj ds = Obj (spread (or_else (field data ''defaults'') (Obj [])) base_defaults) \<and>
            list_all (\<lambda>(n, a). \<not> isl (normalize_animation (Obj ds) n a)) pre"
  then have nn: "\<not> nullish data"
    and ent: "own_entries (field data ''animations'') = pre @ (name, Obj es) # post"
    and pre: "list_all (\<lambda>(n, a). \<not> isl (normalize_animation (Obj ds) n a)) pre"
    by blast+
  from h have "Obj ds = Obj (spread (or_else (field data ''defaults'') (Obj [])) base_defaults)"
    by blast
  then have ds: "ds = spread (or_else (field data ''defaults'') (Obj [])) base_defaults"
    by (simp only: jsval.inject)
  from ent have "own_entries (field data ''animations'') \<noteq> []" by simp
  then have anims: "\<not> nullish (field data ''animations'')"
    by (cases "field data ''animations''") auto
  have "normalize_loop (Obj ds) (pre @ (name, Obj es) # post) (Obj []) = Inl (NeedsFrames name)"
    by (rule normalize_loop_first_failure [OF fails pre table_ok_empty])
  then have "normalize_loop (Obj (spread (or_else (field data ''defaults'') (Obj [])) base_defaults))
           (own_entries (field data ''animations'')) (Obj []) = Inl (NeedsFrames name)"
    unfolding ent ds .
  from normalizeAnimations_loop_fails [OF nn anims this]
  show "normalizeAnimations data = Inl (NeedsFrames name)" .
next
  assume "field (Obj es) ''frameCount'' = Num (Fin 0) \<or> \<not> Number_isInteger (field (Obj es) ''row'')"
  then show "\<not> valid_grid (field (Obj es) ''row'') (field (Obj es) ''frameCount'')
            (resolved (Obj es) (Obj ds) ''frameWidth'') (resolved (Obj es) (Obj ds) ''frameHeight'')"
    by (auto simp: valid_grid_def val_ge_def num_ge_def)
qed

theorem invalid_grid_rejected_witness:
  "buildFramesFromRow (Obj [(''row'', Num (Fin 1)), (''frameCount'', Num (Fin 0))])
     (Obj base_defaults) = Inr Null
   \<and> normalize_animation (Obj base_defaults) ''idle''
       (Obj [(''row'', Num (Fin 1)), (''frameCount'', Num (Fin 0))]) = Inl (NeedsFrames ''idle'')
   \<and> normalizeAnimations config_zero_count = Inl (NeedsFrames ''idle'')"
proof -
  let ?es = "[(''row'', Num (Fin 1)), (''frameCount'', Num (Fin 0))]"
  note igr = invalid_grid_rejected [of ?es base_defaults "''idle''"]
  have zero: "field (Obj ?es) ''frameCount'' = Num (Fin 0) \<or>
      \<not> Number_isInteger (field (Obj ?es) ''row'')"
    by simp
  from igr [THEN conjunct2, rule_format, OF zero]
  have bad: "\<not> valid_grid (field (Obj ?es) ''row'') (field (Obj ?es) ''frameCount'')
      (resolved (Obj ?es) (Obj base_defaults) ''frameWidth'')
      (resolved (Obj ?es) (Obj base_defaults) ''frameHeight'')" .
  have no_frames: "\<not> isArray (field (Obj ?es) ''frames'')" by simp
  note rest = igr [THEN conjunct1, rule_format, OF bad]
  note rest2 = rest [THEN conjunct2, rule_format, OF no_frames]
  have walk_ok: "\<not> isl (normalize_animation (Obj base_defaults) ''walk''
      (Obj [(''row'', Num (Fin 0)), (''frameCount'', Num (Fin 4))]))"
    by code_simp
  have h: "\<not> nullish config_zero_count \<and>
      own_entries (field config_zero_count ''animations'') =
        [(''walk'', Obj [(''row'', Num (Fin 0)), (''frameCount'', Num (Fin 4))])]
          @ (''idle'', Obj ?es) # [] \<and>
      Obj base_defaults =
        Obj (spread (or_else (field config_zero_count ''defaults'') (Obj [])) base_defaults) \<and>
      list_all (\<lambda>(n, a). \<not> isl (normalize_animation (Obj base_defaults) n a))
        [(''walk'', Obj [(''row'', Num (Fin 0)), (''frameCount'', Num (Fin 4))])]"
    using walk_ok by (simp add: config_zero_count_def spread_def or_else_def)
  from rest2 [THEN conjunct2, THEN conjunct2, rule_format, OF h]
    rest [THEN conjunct1] rest2 [THEN conjunct1]
  show ?thesis by simp
qed

subsection \<open>C7: defaults and fallbacks\<close>

text \<open>
  Claim C7. In a normalized table the defaults are the supplied defaults merged over the base
  \<open>{frameDurationMs: 120, scale: 4, frameWidth: 32, frameHeight: 32, sheetOffsetX: 0,
  sheetOffsetY: 0}\<close>: a supplied field wins, a field that is not supplied has the base value.
  Every entry has the animation's own \<^verbatim>\<open>label\<close>, \<^verbatim>\<open>frameDurationMs\<close> and \<^verbatim>\<open>scale\<close>, and where the
  animation has none (\<^verbatim>\<open>undefined\<close> or \<^verbatim>\<open>null\<close>) the key with its first character in upper case,
  and the merged defaults' \<^verbatim>\<open>frameDurationMs\<close> and \<^verbatim>\<open>scale\<close>. In particular
  \<^verbatim>\<open>{animations: {run: {frames: [{x:0,y:0,w:32,h:32}]}}}\<close> gives the entry \<^verbatim>\<open>run\<close> with label
  \<^verbatim>\<open>Run\<close>, duration 120, scale 4 and that one frame.
\<close>

theorem defaults_and_fallbacks:
  "(\<forall>data normalized ds k.
      normalizeAnimations data = Inr normalized \<and>
      or_else (field data ''defaults'') (Obj []) = Obj ds \<and> distinct (map fst ds) \<longrightarrow>
      field (field normalized ''defaults'') k =
        (case map_of ds k of
           Some v \<Rightarrow> v
         | None \<Rightarrow>
             field (Obj [(''frameDurationMs'', Num (Fin 120)), (''scale'', Num (Fin 4)),
                         (''frameWidth'', Num (Fin 32)), (''frameHeight'', Num (Fin 32)),
                         (''sheetOffsetX'', Num (Fin 0)), (''sheetOffsetY'', Num (Fin 0))]) k))
   \<and> (\<forall>data normalized name animation.
      normalizeAnimations data = Inr normalized \<and>
      distinct (map fst (own_entries (field data ''animations''))) \<and>
      (name, animation) \<in> set (own_entries (field data ''animations'')) \<longrightarrow>
      field (field (field normalized ''animations'') name) ''label'' =
        coalesce (field animation ''label'') (Str (toUpperCase (take 1 name) @ drop 1 name)) \<and>
      field (field (field normalized ''animations'') name) ''frameDurationMs'' =
        coalesce (field animation ''frameDurationMs'')
          (field (field normalized ''defaults'') ''frameDurationMs'') \<and>
      field (field (field normalized ''animations'') name) ''scale'' =
        coalesce (field animation ''scale'') (field (field normalized ''defaults'') ''scale''))
   \<and> normalizeAnimations config_run =
       Inr (Obj [(''animations'',
                  Obj [(''run'', Obj [(''label'', Str ''Run''), (''frameDurationMs'', Num (Fin 120)),
                                      (''scale'', Num (Fin 4)), (''frames'', Arr [frame32])])]),
                 (''defaults'',
                  Obj [(''frameDurationMs'', Num (Fin 120)), (''scale'', Num (Fin 4)),
                       (''frameWidth'', Num (Fin 32)), (''frameHeight'', Num (Fin 32)),
                       (''sheetOffsetX'', Num (Fin 0)), (''sheetOffsetY'', Num (Fin 0))])])"
proof -
  have merged: "\<forall>data normalized ds k.
      normalizeAnimations data = Inr normalized \<and>
      or_else (field data ''defaults'') (Obj []) = Obj ds \<and> distinct (map fst ds) \<longrightarrow>
      field (field normalized ''defaults'') k =
        (case map_of ds k of
           Some v \<Rightarrow> v
         | None \<Rightarrow>
             field (Obj [(''frameDurationMs'', Num (Fin 120)), (''scale'', Num (Fin 4)),
                         (''frameWidth'', Num (Fin 32)), (''frameHeight'', Num (Fin 32)),
                         (''sheetOffsetX'', Num (Fin 0)), (''sheetOffsetY'', Num (Fin 0))]) k)"
  proof (intro allI impI)
    fix data normalized ds k
    assume "normalizeAnimations data = Inr normalized \<and>
      or_else (field data ''defaults'') (Obj []) = Obj ds \<and> distinct (map fst ds)"
    then have "field (field normalized ''defaults'') k =
           (case map_of ds k of Some v \<Rightarrow> v | None \<Rightarrow> field (Obj base_defaults) k)"
      by (elim conjE, intro merged_defaults_field) assumption+
    then show "field (field normalized ''defaults'') k =
        (case map_of ds k of
           Some v \<Rightarrow> v
         | None \<Rightarrow>
             field (Obj [(''frameDurationMs'', Num (Fin 120)), (''scale'', Num (Fin 4)),
                         (''frameWidth'', Num (Fin 32)), (''frameHeight'', Num (Fin 32)),
                         (''sheetOffsetX'', Num (Fin 0)), (''sheetOffsetY'', Num (Fin 0))]) k)"
      by (simp only: base_defaults_def)
  qed
  have filled: "\<forall>data normalized name animation.
      normalizeAnimations data = Inr normalized \<and>
      distinct (map fst (own_entries (field data ''animations''))) \<and>
      (name, animation) \<in> set (own_entries (field data ''animations'')) \<longrightarrow>
      field (field (field normalized ''animations'') name) ''label'' =
        coalesce (field animation ''label'') (Str (toUpperCase (take 1 name) @ drop 1 name)) \<and>
      field (field (field normalized ''animations'') name) ''frameDurationMs'' =
        coalesce (field animation ''frameDurationMs'')
          (field (field normalized ''defaults'') ''frameDurationMs'') \<and>
      field (field (field normalized ''animations'') name) ''scale'' =
        coalesce (field animation ''scale'') (field (field normalized ''defaults'') ''scale'')"
  proof (intro allI impI)
    fix data normalized name animation
    assume h: "normalizeAnimations data = Inr normalized \<and>
      distinct (map fst (own_entries (field data ''animations''))) \<and>
      (name, animation) \<in> set (own_entries (field data ''animations''))"
    then have e: "normalize_animation (field normalized ''defaults'') name animation =
        Inr (field (field normalized ''animations'') name)"
      by (elim conjE, intro normalized_entry) assumption+
    from normalize_animation_fields [OF e] normalize_animation_duration [OF e]
    show "field (field (field normalized ''animations'') name) ''label'' =
        coalesce (field animation ''label'') (Str (toUpperCase (take 1 name) @ drop 1 name)) \<and>
      field (field (field normalized ''animations'') name) ''frameDurationMs'' =
        coalesce (field animation ''frameDurationMs'')
          (field (field normalized ''defaults'') ''frameDurationMs'') \<and>
      field (field (field normalized ''animations'') name) ''scale'' =
        coalesce (field animation ''scale'') (field (field normalized ''defaults'') ''scale'')"
      by simp
  qed
  have run: "normalizeAnimations config_run =
       Inr (Obj [(''animations'',
                  Obj [(''run'', Obj [(''label'', Str ''Run''), (''frameDurationMs'', Num (Fin 120)),
                                      (''scale'', Num (Fin 4)), (''frames'', Arr [frame32])])]),
                 (''defaults'',
                  Obj [(''frameDurationMs'', Num (Fin 120)), (''scale'', Num (Fin 4)),
                       (''frameWidth'', Num (Fin 32)), (''frameHeight'', Num (Fin 32)),
                       (''sheetOffsetX'', Num (Fin 0)), (''sheetOffsetY'', Num (Fin 0))])])"
    using config_run_normalized by (simp only: base_defaults_def)
  from merged filled run show ?thesis by (intro conjI)
qed

theorem defaults_and_fallbacks_witness:
  "\<exists>normalized. normalizeAnimations config_custom = Inr normalized \<and>
     field (field normalized ''defaults'') ''scale'' = Num (Fin 2) \<and>
     field (field normalized ''defaults'') ''frameWidth'' = Num (Fin 32) \<and>
     field (field (field normalized ''animations'') ''run'') ''label'' = Str ''Sprint'' \<and>
     field (field (field normalized ''animations'') ''run'') ''scale'' =
       field (field normalized ''defaults'') ''scale''"
proof -
  note df = defaults_and_fallbacks
  from config_custom_normalized obtain normalized
    where n: "normalizeAnimations config_custom = Inr normalized"
    by blast
  have h1: "normalizeAnimations config_custom = Inr normalized \<and>
      or_else (field config_custom ''defaults'') (Obj []) = Obj [(''scale'', Num (Fin 2))] \<and>
      distinct (map fst [(''scale'', Num (Fin 2))])"
    using n by (simp add: config_custom_def or_else_def)
  have h2: "normalizeAnimations config_custom = Inr normalized \<and>
      distinct (map fst (own_entries (field config_custom ''animations''))) \<and>
      (''run'', Obj [(''frames'', Arr [frame32]), (''label'', Str ''Sprint'')])
        \<in> set (own_entries (field config_custom ''animations''))"
    using n by (simp add: config_custom_def)
  from df [THEN conjunct1, rule_format, OF h1, of "''scale''"]
  have a: "field (field normalized ''defaults'') ''scale'' = Num (Fin 2)" by simp
  from df [THEN conjunct1, rule_format, OF h1, of "''frameWidth''"]
  have b: "field (field normalized ''defaults'') ''frameWidth'' = Num (Fin 32)" by simp
  from df [THEN conjunct2, THEN conjunct1, rule_format, OF h2]
  have c: "field (field (field normalized ''animations'') ''run'') ''label'' = Str ''Sprint''"
    and d: "field (field (field normalized ''animations'') ''run'') ''scale'' =
       field (field normalized ''defaults'') ''scale''"
    by (simp_all add: coalesce_def)
  from n a b c d show ?thesis by blast
qed

subsection \<open>C8: selecting an animation\<close>

text \<open>
  Claim C8 says that selecting a key that the table does not have changes nothing. The code
  tests \<^verbatim>\<open>state.animations.animations[key]\<close> for truthiness, and that finds the properties
  which the table inherits from \<^verbatim>\<open>Object.prototype\<close> as well. After startup with the single
  animation \<^verbatim>\<open>walk\<close>, selecting \<^verbatim>\<open>toString\<close> makes \<^verbatim>\<open>toString\<close> the active key, resets the frame
  index and the timer, and writes \<^verbatim>\<open>Current animation: toString\<close>. A config can do the same:
  with \<^verbatim>\<open>"defaultAnimation": "toString"\<close> startup selects \<^verbatim>\<open>toString\<close> and starts the render
  loop, and the first \<^verbatim>\<open>draw\<close> raises a \<^verbatim>\<open>TypeError\<close>, since the function has no frames; nothing
  is ever drawn.

  What holds is this. Without a table (\<^verbatim>\<open>state.animations\<close> is \<^verbatim>\<open>null\<close>) no key is selected. In
  a table that \<^verbatim>\<open>normalizeAnimations\<close> returned, a key that the table has as an own property is
  made the active key, with the frame index and the timer set to 0, whatever the state was.
  If the table has the default prototype, which it has unless the config names an animation
  \<^verbatim>\<open>__proto__\<close>, a key that it does not have changes nothing when the key is not a property of
  \<^verbatim>\<open>Object.prototype\<close> either, and is selected like an entry when it is one.
\<close>

theorem selection:
  "(\<forall>dm s k.
      (animations s = Null \<longrightarrow> setAnimation dm (Str k) s = Inr s) \<and>
      ((\<exists>data. normalizeAnimations data = Inr (animations s)) \<and>
       k \<in> fst ` set (own_entries (field (animations s) ''animations'')) \<longrightarrow>
         (\<exists>s'. setAnimation dm (Str k) s = Inr s' \<and>
            s' = setStatus dm
                   (CurrentAnimation
                      (or_else (field (field (field (animations s) ''animations'') k) ''label'')
                         (Str k)))
                   (s\<lparr>activeAnimationKey := Str k, frameIndex := Fin 0,
                       frameTimerMs := Fin 0\<rparr>) \<and>
            activeAnimationKey s' = Str k \<and> frameIndex s' = Fin 0 \<and>
            frameTimerMs s' = Fin 0)) \<and>
      ((\<exists>data. normalizeAnimations data = Inr (animations s)) \<and>
       (\<exists>es. field (animations s) ''animations'' = Obj es) \<and>
       k \<notin> fst ` set (own_entries (field (animations s) ''animations'')) \<longrightarrow>
         (if k \<in> set inherited_names
          then setAnimation dm (Str k) s =
                 Inr (setStatus dm (CurrentAnimation (Str k))
                        (s\<lparr>activeAnimationKey := Str k, frameIndex := Fin 0,
                            frameTimerMs := Fin 0\<rparr>))
          else setAnimation dm (Str k) s = Inr s)))
   \<and> ''toString'' \<notin> fst ` set (own_entries (field (animations started_walk4) ''animations''))
   \<and> setAnimation page (Str ''toString'')
       (started_walk4\<lparr>frameIndex := Fin 2, frameTimerMs := Fin 50\<rparr>) =
     Inr (started_walk4\<lparr>activeAnimationKey := Str ''toString'', frameIndex := Fin 0,
                        frameTimerMs := Fin 0,
                        status := CurrentAnimation (Str ''toString'')\<rparr>)
   \<and> fst ` set (own_entries
        (field (animations (init page (Inr (cat_sheet, config_default_toString)) initial_state))
           ''animations'')) = {''walk''}
   \<and> activeAnimationKey (init page (Inr (cat_sheet, config_default_toString)) initial_state) =
       Str ''toString''
   \<and> scheduled (init page (Inr (cat_sheet, config_default_toString)) initial_state)
   \<and> draw page (Fin 16) (init page (Inr (cat_sheet, config_default_toString)) initial_state) =
       Some (Inl TypeError)"
proof (intro conjI allI impI)
  fix dm :: dom and s :: state and k
  assume "animations s = Null"
  then show "setAnimation dm (Str k) s = Inr s" by (simp add: setAnimation_def)
next
  fix dm :: dom and s :: state and k
  assume h: "(\<exists>data. normalizeAnimations data = Inr (animations s)) \<and>
       k \<in> fst ` set (own_entries (field (animations s) ''animations''))"
  then obtain data where "normalizeAnimations data = Inr (animations s)" by blast
  from normalized_table_shape [OF this] obtain props
    where props: "animations s = Obj props"
      and ok: "table_ok (field (animations s) ''animations'')"
      and objs: "\<forall>v \<in> snd ` set (own_entries (field (animations s) ''animations'')).
                   \<exists>members. v = Obj members"
    by blast
  let ?table = "field (animations s) ''animations''"
  from h obtain v where v: "map_of (own_entries ?table) k = Some v"
    by (cases "map_of (own_entries ?table) k") (auto simp: map_of_eq_None_iff)
  then have "v \<in> snd ` set (own_entries ?table)" by (force dest: map_of_SomeD)
  with objs obtain members where "v = Obj members" by blast
  with v have known: "map_of (own_entries ?table) k = Some (Obj members)" by simp
  from field_table_own [OF known ok] have entry: "field ?table k = Obj members" .
  have tab: "field (Obj props) ''animations'' = ?table" using props by simp
  from setAnimation_known [OF props tab ok known, of dm]
  show "\<exists>s'. setAnimation dm (Str k) s = Inr s' \<and>
            s' = setStatus dm
                   (CurrentAnimation
                      (or_else (field (field (field (animations s) ''animations'') k) ''label'')
                         (Str k)))
                   (s\<lparr>activeAnimationKey := Str k, frameIndex := Fin 0,
                       frameTimerMs := Fin 0\<rparr>) \<and>
            activeAnimationKey s' = Str k \<and> frameIndex s' = Fin 0 \<and>
            frameTimerMs s' = Fin 0"
    unfolding entry by (simp add: setStatus_def)
next
  fix dm :: dom and s :: state and k
  assume h: "(\<exists>data. normalizeAnimations data = Inr (animations s)) \<and>
       (\<exists>es. field (animations s) ''animations'' = Obj es) \<and>
       k \<notin> fst ` set (own_entries (field (animations s) ''animations''))"
  then obtain data es where "normalizeAnimations data = Inr (animations s)"
    and es: "field (animations s) ''animations'' = Obj es"
    by blast
  from normalized_table_shape [OF this(1)] obtain props where props: "animations s = Obj props"
    by blast
  have tab: "field (Obj props) ''animations'' = Obj es" using props es by simp
  from h es have absent: "k \<notin> fst ` set es" by simp
  show "if k \<in> set inherited_names
          then setAnimation dm (Str k) s =
                 Inr (setStatus dm (CurrentAnimation (Str k))
                        (s\<lparr>activeAnimationKey := Str k, frameIndex := Fin 0,
                            frameTimerMs := Fin 0\<rparr>))
          else setAnimation dm (Str k) s = Inr s"
    using setAnimation_inherited [OF props tab absent, of dm]
      setAnimation_unknown [OF props tab absent, of dm]
    by simp
next
  show "''toString'' \<notin> fst ` set (own_entries (field (animations started_walk4) ''animations''))"
    by (simp add: started_walk4_animations)
  show "setAnimation page (Str ''toString'')
       (started_walk4\<lparr>frameIndex := Fin 2, frameTimerMs := Fin 50\<rparr>) =
     Inr (started_walk4\<lparr>activeAnimationKey := Str ''toString'', frameIndex := Fin 0,
                        frameTimerMs := Fin 0,
                        status := CurrentAnimation (Str ''toString'')\<rparr>)"
    by code_simp
  show "fst ` set (own_entries
        (field (animations (init page (Inr (cat_sheet, config_default_toString)) initial_state))
           ''animations'')) = {''walk''}"
    by code_simp
  show "activeAnimationKey (init page (Inr (cat_sheet, config_default_toString)) initial_state) =
       Str ''toString''"
    by code_simp
  show "scheduled (init page (Inr (cat_sheet, config_default_toString)) initial_state)"
    by code_simp
  have act: "active_animation (init page (Inr (cat_sheet, config_default_toString)) initial_state)
      = Inr (Native (Prototype_method ''toString''))"
    by code_simp
  have tm: "frameTimerMs (init page (Inr (cat_sheet, config_default_toString)) initial_state) = Fin 0"
    by code_simp
  have dfl: "js_get (animations (init page (Inr (cat_sheet, config_default_toString)) initial_state))
      ''defaults'' = Inr (Obj base_defaults)"
    by code_simp
  have fl: "frames_length (Native (Prototype_method ''toString'')) = Inl TypeError"
    by code_simp
  have loop: "draw_loop (Fin 120) (Inl TypeError) (Fin 16)
      (frameIndex (init page (Inr (cat_sheet, config_default_toString)) initial_state)) =
      Some (Inr (Fin 16,
        frameIndex (init page (Inr (cat_sheet, config_default_toString)) initial_state)))"
    by (subst draw_loop.simps) (simp add: num_ge_def)
  have cur: "getCurrentFrame s (Native (Prototype_method ''toString'')) = Inl TypeError" for s
    by (simp add: getCurrentFrame_def js_get_def field.simps)
  show "draw page (Fin 16) (init page (Inr (cat_sheet, config_default_toString)) initial_state) =
       Some (Inl TypeError)"
    using act tm dfl fl loop cur
    by (simp add: draw_def page_def js_get_def field.simps base_defaults_def)
qed

theorem selection_witness:
  "setAnimation page (Str ''run'') (started_walk4\<lparr>frameIndex := Fin 2, frameTimerMs := Fin 50\<rparr>) =
     Inr (started_walk4\<lparr>frameIndex := Fin 2, frameTimerMs := Fin 50\<rparr>)
   \<and> (\<exists>s'. setAnimation page (Str ''walk'')
              (started_walk4\<lparr>frameIndex := Fin 2, frameTimerMs := Fin 50\<rparr>) = Inr s' \<and>
          activeAnimationKey s' = Str ''walk'' \<and> frameIndex s' = Fin 0 \<and>
          frameTimerMs s' = Fin 0)
   \<and> setAnimation page (Str ''valueOf'')
        (started_walk4\<lparr>frameIndex := Fin 2, frameTimerMs := Fin 50\<rparr>) =
      Inr (setStatus page (CurrentAnimation (Str ''valueOf''))
            (started_walk4\<lparr>frameIndex := Fin 2, frameTimerMs := Fin 50,
                            activeAnimationKey := Str ''valueOf'', frameIndex := Fin 0,
                            frameTimerMs := Fin 0\<rparr>))"
proof -
  let ?s = "started_walk4\<lparr>frameIndex := Fin 2, frameTimerMs := Fin 50\<rparr>"
  note sel = selection [THEN conjunct1, rule_format]
  have tbl: "\<exists>data. normalizeAnimations data = Inr (animations ?s)"
    using started_walk4_table by auto
  have plain: "\<exists>es. field (animations ?s) ''animations'' = Obj es"
    by (simp add: started_walk4_animations)
  have keys: "fst ` set (own_entries (field (animations ?s) ''animations'')) = {''walk''}"
    by (simp add: started_walk4_animations)
  have absent: "''run'' \<notin> fst ` set (own_entries (field (animations ?s) ''animations''))"
    and absent': "''valueOf'' \<notin> fst ` set (own_entries (field (animations ?s) ''animations''))"
    and present: "''walk'' \<in> fst ` set (own_entries (field (animations ?s) ''animations''))"
    unfolding keys by simp_all
  have not_inherited: "''run'' \<notin> set inherited_names"
    and inherited: "''valueOf'' \<in> set inherited_names"
    by (simp_all add: inherited_names_def prototype_methods_def)
  from sel [where dm = page and s = ?s and k = "''run''", THEN conjunct2, THEN conjunct2, rule_format,
      OF conjI [OF tbl conjI [OF plain absent]]] not_inherited
  have no_change: "setAnimation page (Str ''run'') ?s = Inr ?s" by simp
  from sel [where dm = page and s = ?s and k = "''valueOf''", THEN conjunct2, THEN conjunct2, rule_format,
      OF conjI [OF tbl conjI [OF plain absent']]] inherited
  have phantom: "setAnimation page (Str ''valueOf'') ?s =
      Inr (setStatus page (CurrentAnimation (Str ''valueOf''))
            (?s\<lparr>activeAnimationKey := Str ''valueOf'', frameIndex := Fin 0,
                 frameTimerMs := Fin 0\<rparr>))"
    by simp
  from sel [where dm = page and s = ?s and k = "''walk''", THEN conjunct2, THEN conjunct1, rule_format,
      OF conjI [OF tbl present]]
  have "\<exists>s'. setAnimation page (Str ''walk'') ?s = Inr s' \<and>
          activeAnimationKey s' = Str ''walk'' \<and> frameIndex s' = Fin 0 \<and>
          frameTimerMs s' = Fin 0"
    by blast
  with no_change phantom show ?thesis by (intro conjI)
qed

subsection \<open>C9: the animation selected at startup\<close>

text \<open>
  Claim C9 says that startup selects the default animation if it names an entry and else the
  first key, and that it fails only for a table without entries. With the empty string as a
  key the code does otherwise, because \<^verbatim>\<open>init\<close> tests the key for truthiness. For
  \<^verbatim>\<open>{"animations": {"": {"frames": [{"x":0,"y":0,"w":32,"h":32}]}}}\<close> the table has one entry,
  yet startup fails with \<^verbatim>\<open>No animations found in JSON.\<close>, selects nothing and does not start
  the render loop. For \<^verbatim>\<open>{"defaultAnimation": "", "animations": {"walk": ..., "": ...}}\<close> the
  default animation names an entry, yet the first key \<^verbatim>\<open>walk\<close> is selected.

  Where the code does what the claim says is stated by the lemmas \<open>startup_default\<close>,
  \<open>startup_first\<close> and \<open>startup_none\<close>. Their hypotheses exclude the empty string as the key
  to select and a default animation that names no animation but a property of
  \<^verbatim>\<open>Object.prototype\<close>, which is selected all the same (lemma \<open>startup_inherited\<close>, and C8);
  the lemma on the first key also excludes an animation named \<^verbatim>\<open>__proto__\<close>, which is not a
  key of the table.
\<close>

theorem empty_key_startup:
  "own_entries (field (animations (init page (Inr (cat_sheet, config_empty_key)) initial_state))
     ''animations'') =
     [('''', Obj [(''label'', Str ''''), (''frameDurationMs'', Num (Fin 120)),
                  (''scale'', Num (Fin 4)), (''frames'', Arr [frame32])])]
   \<and> status (init page (Inr (cat_sheet, config_empty_key)) initial_state) =
       Failed NoAnimationsFound
   \<and> activeAnimationKey (init page (Inr (cat_sheet, config_empty_key)) initial_state) = Null
   \<and> scheduled (init page (Inr (cat_sheet, config_empty_key)) initial_state) = False
   \<and> field (animations (init page (Inr (cat_sheet, config_empty_default)) initial_state))
       ''defaultAnimation'' = Str ''''
   \<and> activeAnimationKey (init page (Inr (cat_sheet, config_empty_default)) initial_state) =
       Str ''walk''"
  by code_simp

theorem empty_key_startup_witness:
  "(canvas page \<and> ctx page \<and> controlsEl page \<and> statusEl page)
   \<and> status (init page (Inr (cat_sheet, config_empty_key)) initial_state) =
       Failed NoAnimationsFound
   \<and> activeAnimationKey (init page (Inr (cat_sheet, config_empty_default)) initial_state) =
       Str ''walk''"
proof -
  have elements_present: "canvas page \<and> ctx page \<and> controlsEl page \<and> statusEl page"
    by (simp add: page_def)
  from empty_key_startup
  have "status (init page (Inr (cat_sheet, config_empty_key)) initial_state) =
       Failed NoAnimationsFound
   \<and> activeAnimationKey (init page (Inr (cat_sheet, config_empty_default)) initial_state) =
       Str ''walk''"
    by blast
  with elements_present show ?thesis by (rule conjI)
qed

subsection \<open>C10: defaults given as \<^verbatim>\<open>null\<close>\<close>

text \<open>
  Claim C10. A config whose \<^verbatim>\<open>defaults\<close> is \<^verbatim>\<open>null\<close> is not rejected for its \<^verbatim>\<open>defaults\<close>:
  validation gives what it gives for the same config without the field. Normalization does
  too: it fails with the same error or it succeeds with a table that has the same value for
  every property, and the merged defaults are the base values.
\<close>

theorem null_defaults_as_omitted:
  assumes "field (Obj es) ''defaults'' = Null"
  shows "validateAnimations (Obj es) \<noteq> Inl DefaultsNotObject \<and>
         validateAnimations (Obj es) = validateAnimations (Obj (AList.delete ''defaults'' es)) \<and>
         (\<forall>normalized. normalizeAnimations (Obj es) = Inr normalized \<longrightarrow>
            field normalized ''defaults'' = Obj base_defaults \<and>
            (\<exists>other. normalizeAnimations (Obj (AList.delete ''defaults'' es)) = Inr other \<and>
                     (\<forall>k. field normalized k = field other k))) \<and>
         (\<forall>e. normalizeAnimations (Obj es) = Inl e \<longrightarrow>
              normalizeAnimations (Obj (AList.delete ''defaults'' es)) = Inl e)"
  using null_defaults_validate [OF assms] null_defaults_normalize [OF assms]
  by (intro conjI) blast+

theorem null_defaults_as_omitted_witness:
  "validateAnimations config_null_defaults = validateAnimations config_run \<and>
   (\<exists>normalized other.
      normalizeAnimations config_null_defaults = Inr normalized \<and>
      field normalized ''defaults'' = Obj base_defaults \<and>
      normalizeAnimations config_run = Inr other \<and>
      field normalized ''animations'' = field other ''animations'')"
proof -
  let ?es = "[(''defaults'', Null),
              (''animations'', Obj [(''run'', Obj [(''frames'', Arr [frame32])])])]"
  have null: "field (Obj ?es) ''defaults'' = Null" by simp
  note nd = null_defaults_as_omitted [OF null]
  have without: "Obj (AList.delete ''defaults'' ?es) = config_run"
    by (simp add: config_run_def)
  have this_config: "Obj ?es = config_null_defaults"
    by (simp add: config_null_defaults_def)
  from config_null_defaults_normalized obtain normalized
    where n: "normalizeAnimations (Obj ?es) = Inr normalized"
    unfolding this_config by blast
  from nd [THEN conjunct2, THEN conjunct2, THEN conjunct1, rule_format, OF n]
  obtain other where d: "field normalized ''defaults'' = Obj base_defaults"
    and o: "normalizeAnimations (Obj (AList.delete ''defaults'' ?es)) = Inr other"
    and same: "\<forall>k. field normalized k = field other k"
    by blast
  from nd [THEN conjunct2, THEN conjunct1] n d o same
  show ?thesis unfolding without this_config by blast
qed

end
